theory Spec2Isabelle
  imports Complex_Main
begin

unbundle bit_operations_syntax

section \<open>Numbers and small helpers (utils.js)\<close>

text \<open>
  The numbers of the user interface (slider positions, zoom factors, times, pixel
  sizes) are modelled as mathematical reals: the model describes the arithmetic the code
  writes down, on finite values, without IEEE-754 rounding. Integer-valued quantities
  that the code only ever uses as counts or indices (sample positions, frame counts,
  request tokens) are \<open>int\<close> or \<open>nat\<close>. The contents of the typed arrays of the
  spectrogram module can overflow and become NaN; they have a type of their own, in the
  next section.
\<close>

text \<open>\<^verbatim>\<open>clamp(v, lo, hi) = Math.min(hi, Math.max(lo, v))\<close>\<close>

definition clamp :: "real \<Rightarrow> real \<Rightarrow> real \<Rightarrow> real" where
  "clamp v lo hi = min hi (max lo v)"

text \<open>\<^verbatim>\<open>Math.round\<close>: the nearest integer, ties towards \<open>+\<infinity>\<close>.\<close>

definition Math_round :: "real \<Rightarrow> int" where
  "Math_round x = \<lfloor>x + 1 / 2\<rfloor>"

text \<open>
  \<^verbatim>\<open>Number(x) || 0\<close>: the numeric value of a form field; \<open>None\<close> stands for a
  text that \<^verbatim>\<open>Number\<close> turns into NaN, which \<^verbatim>\<open>|| 0\<close> replaces by 0.
\<close>

definition numberOr0 :: "real option \<Rightarrow> real" where
  "numberOr0 raw = (case raw of None \<Rightarrow> 0 | Some r \<Rightarrow> r)"

section \<open>Numbers in typed arrays\<close>

text \<open>
  The spectrogram module keeps its samples, FFT buffers and magnitudes in
  \<^verbatim>\<open>Float32Array\<close>s, where a stored value can overflow to an infinity and an
  infinity can turn into NaN. These values are modelled by \<open>jsnum\<close>: a finite real, the
  two infinities, or NaN. Arithmetic on finite values is exact (rounding is left out,
  and so is the sign of zero); what is modelled is the overflow of a store into a
  \<^verbatim>\<open>Float32Array\<close> and the IEEE rules for infinities and NaN. Double-precision
  overflow is not modelled: the operands here are in single-precision range.
\<close>

datatype jsnum = Fin real | PInf | NInf | NaN

instantiation jsnum :: "{uminus, plus, minus, times, inverse, ord}"
begin

fun uminus_jsnum :: "jsnum \<Rightarrow> jsnum" where
  "- Fin a = Fin (- a)"
| "- PInf = NInf"
| "- NInf = PInf"
| "- NaN = NaN"

fun plus_jsnum :: "jsnum \<Rightarrow> jsnum \<Rightarrow> jsnum" where
  "Fin a + Fin b = Fin (a + b)"
| "NaN + y = NaN"
| "x + NaN = NaN"
| "PInf + NInf = NaN"
| "NInf + PInf = NaN"
| "PInf + y = PInf"
| "x + PInf = PInf"
| "NInf + y = NInf"
| "x + NInf = NInf"

definition minus_jsnum :: "jsnum \<Rightarrow> jsnum \<Rightarrow> jsnum" where
  "minus_jsnum x y = x + (- y)"

fun times_jsnum :: "jsnum \<Rightarrow> jsnum \<Rightarrow> jsnum" where
  "Fin a * Fin b = Fin (a * b)"
| "NaN * y = NaN"
| "x * NaN = NaN"
| "PInf * Fin b = (if b = 0 then NaN else if 0 < b then PInf else NInf)"
| "NInf * Fin b = (if b = 0 then NaN else if 0 < b then NInf else PInf)"
| "Fin a * PInf = (if a = 0 then NaN else if 0 < a then PInf else NInf)"
| "Fin a * NInf = (if a = 0 then NaN else if 0 < a then NInf else PInf)"
| "PInf * PInf = PInf"
| "PInf * NInf = NInf"
| "NInf * PInf = NInf"
| "NInf * NInf = PInf"

fun divide_jsnum :: "jsnum \<Rightarrow> jsnum \<Rightarrow> jsnum" where
  "divide_jsnum (Fin a) (Fin b) =
     (if b \<noteq> 0 then Fin (a / b) else if a = 0 then NaN else if 0 < a then PInf else NInf)"
| "divide_jsnum NaN y = NaN"
| "divide_jsnum x NaN = NaN"
| "divide_jsnum (Fin a) PInf = Fin 0"
| "divide_jsnum (Fin a) NInf = Fin 0"
| "divide_jsnum PInf (Fin b) = (if 0 \<le> b then PInf else NInf)"
| "divide_jsnum NInf (Fin b) = (if 0 \<le> b then NInf else PInf)"
| "divide_jsnum PInf PInf = NaN"
| "divide_jsnum PInf NInf = NaN"
| "divide_jsnum NInf PInf = NaN"
| "divide_jsnum NInf NInf = NaN"

definition inverse_jsnum :: "jsnum \<Rightarrow> jsnum" where
  "inverse_jsnum x = Fin 1 div x"

fun less_jsnum :: "jsnum \<Rightarrow> jsnum \<Rightarrow> bool" where
  "Fin a < Fin b \<longleftrightarrow> a < b"
| "NaN < y \<longleftrightarrow> False"
| "x < NaN \<longleftrightarrow> False"
| "x < NInf \<longleftrightarrow> False"
| "PInf < y \<longleftrightarrow> False"
| "NInf < y \<longleftrightarrow> True"
| "Fin a < PInf \<longleftrightarrow> True"

fun less_eq_jsnum :: "jsnum \<Rightarrow> jsnum \<Rightarrow> bool" where
  "Fin a \<le> Fin b \<longleftrightarrow> a \<le> b"
| "NaN \<le> y \<longleftrightarrow> False"
| "x \<le> NaN \<longleftrightarrow> False"
| "NInf \<le> y \<longleftrightarrow> True"
| "x \<le> PInf \<longleftrightarrow> True"
| "PInf \<le> y \<longleftrightarrow> False"
| "Fin a \<le> NInf \<longleftrightarrow> False"

instance ..

end

text \<open>
  A store into a \<^verbatim>\<open>Float32Array\<close>: a finite value at or beyond
  \<open>2^128 - 2^103\<close> (the midpoint above the largest single-precision number) becomes
  an infinity.
\<close>

definition F32_OVERFLOW :: real where
  "F32_OVERFLOW = 340282356779733661637539395458142568448"

definition f32 :: "jsnum \<Rightarrow> jsnum" where
  "f32 v = (case v of
              Fin x \<Rightarrow> if F32_OVERFLOW \<le> x then PInf
                        else if x \<le> - F32_OVERFLOW then NInf else Fin x
            | _ \<Rightarrow> v)"

text \<open>\<^verbatim>\<open>Math.max\<close> and \<^verbatim>\<open>Math.min\<close>: NaN if an argument is NaN.\<close>

definition js_max :: "jsnum \<Rightarrow> jsnum \<Rightarrow> jsnum" where
  "js_max x y = (if x = NaN \<or> y = NaN then NaN else if x < y then y else x)"

definition js_min :: "jsnum \<Rightarrow> jsnum \<Rightarrow> jsnum" where
  "js_min x y = (if x = NaN \<or> y = NaN then NaN else if y < x then y else x)"

text \<open>\<^verbatim>\<open>clamp\<close> of utils.js on these values.\<close>

definition js_clamp :: "jsnum \<Rightarrow> jsnum \<Rightarrow> jsnum \<Rightarrow> jsnum" where
  "js_clamp v lo hi = js_min hi (js_max lo v)"

text \<open>\<^verbatim>\<open>Math.hypot(x, y)\<close>: infinite if an argument is infinite, else NaN if one is NaN.\<close>

definition js_hypot :: "jsnum \<Rightarrow> jsnum \<Rightarrow> jsnum" where
  "js_hypot x y =
     (if x = PInf \<or> x = NInf \<or> y = PInf \<or> y = NInf then PInf
      else case (x, y) of
             (Fin a, Fin b) \<Rightarrow> Fin (sqrt (a\<^sup>2 + b\<^sup>2))
           | _ \<Rightarrow> NaN)"

text \<open>\<^verbatim>\<open>Math.log10\<close>\<close>

definition js_log10 :: "jsnum \<Rightarrow> jsnum" where
  "js_log10 v = (case v of
                   Fin x \<Rightarrow> if 0 < x then Fin (log 10 x) else if x = 0 then NInf else NaN
                 | PInf \<Rightarrow> PInf
                 | NInf \<Rightarrow> NaN
                 | NaN \<Rightarrow> NaN)"


text \<open>
  Two predicates on these values: a finite number of absolute value at most \<open>M\<close>, and
  a magnitude that a store may have turned into an infinity: a finite number that is
  not negative, or the positive infinity.
\<close>

definition fin_le :: "real \<Rightarrow> jsnum \<Rightarrow> bool" where
  "fin_le M v = (case v of Fin x \<Rightarrow> \<bar>x\<bar> \<le> M | _ \<Rightarrow> False)"

definition is_mag :: "jsnum \<Rightarrow> bool" where
  "is_mag v = (case v of Fin x \<Rightarrow> 0 \<le> x | PInf \<Rightarrow> True | _ \<Rightarrow> False)"

text \<open>
  A pair of buffers of length \<open>n\<close> whose entries at each index \<open>i\<close> are finite and of
  absolute value at most \<open>bnd i\<close>.
\<close>

definition bufs_at :: "nat \<Rightarrow> (nat \<Rightarrow> real) \<Rightarrow> jsnum list \<times> jsnum list \<Rightarrow> bool" where
  "bufs_at n bnd b = (length (fst b) = n \<and> length (snd b) = n
     \<and> (\<forall>i<n. fin_le (bnd i) (fst b ! i) \<and> fin_le (bnd i) (snd b ! i)))"


section \<open>Bi-log slider (utils.js, ui-controls.js, main application)\<close>

record biLogMapping =
  map_min :: real
  map_max :: real
  steps :: real
  mid :: real

definition createBiLogMapping :: "real \<Rightarrow> real \<Rightarrow> real \<Rightarrow> biLogMapping" where
  "createBiLogMapping mn mx st = \<lparr>map_min = mn, map_max = mx, steps = st, mid = st / 2\<rparr>"

text \<open>
  \<^verbatim>\<open>Math.pow(b, p)\<close> is \<open>b powr p\<close> for the positive bases the mappings of the
  program have (\<open>1 / min\<close> and \<open>max\<close>).
\<close>

definition factorFromSlider :: "real \<Rightarrow> biLogMapping \<Rightarrow> real" where
  "factorFromSlider val m =
     (let v = clamp val 0 (steps m); md = mid m in
      if v = md then 1
      else if v < md then (let p = v / md in map_min m * ((1 / map_min m) powr p))
      else (let p = (v - md) / md in map_max m powr p))"

definition sliderFromFactor :: "real \<Rightarrow> biLogMapping \<Rightarrow> int" where
  "sliderFromFactor factor m =
     (let f = clamp factor (map_min m) (map_max m); md = mid m in
      if \<bar>f - 1\<bar> < 1 / 10 ^ 12 then Math_round md
      else if f < 1 then (let p = ln (f / map_min m) / ln (1 / map_min m) in Math_round (p * md))
      else (let p = ln f / ln (map_max m) in Math_round (md + p * md)))"

definition SNAP_RANGE :: real where
  "SNAP_RANGE = 1 / 10"

text \<open>
  \<^verbatim>\<open>applyFromSlider\<close> of \<^verbatim>\<open>bindBiLogSlider\<close>. The result is the pair
  \<open>(factor, snapped)\<close> that is handed to \<^verbatim>\<open>setFactorLabel\<close> and to
  \<^verbatim>\<open>onChange\<close>, and the value written back into the input element, if any.
\<close>

definition applyFromSlider :: "real option \<Rightarrow> biLogMapping \<Rightarrow> real \<times> bool \<times> int option" where
  "applyFromSlider rawVal m =
     (let clamped = clamp (of_int (Math_round (numberOr0 rawVal))) 0 (steps m);
          factor = factorFromSlider clamped m in
      if \<bar>factor - 1\<bar> \<le> SNAP_RANGE then
        (let snapVal = sliderFromFactor 1 m in
         (1, True, if of_int snapVal \<noteq> clamped then Some snapVal else None))
      else (factor, False, None))"

text \<open>\<^verbatim>\<open>currentSliderFactor(elInput, map)\<close>; the argument is \<^verbatim>\<open>elInput.value\<close>.\<close>

definition currentSliderFactor :: "real option \<Rightarrow> biLogMapping \<Rightarrow> real" where
  "currentSliderFactor elInput_value m =
     (let raw = numberOr0 elInput_value; f = factorFromSlider raw m in
      if \<bar>f - 1\<bar> \<le> 1 / 10 then 1 else f)"

text \<open>The mapping of the zoom slider, from \<^verbatim>\<open>createZoomConfig\<close>.\<close>

definition zoomMap :: biLogMapping where
  "zoomMap = createBiLogMapping (1 / 8) 256 200"

section \<open>Spectrogram computation (spectrogram.js)\<close>

text \<open>
  An \<^verbatim>\<open>AudioBuffer\<close> of the Web Audio API: \<^verbatim>\<open>sampleRate\<close>, \<^verbatim>\<open>length\<close> (sample
  frames per channel) and the channel arrays that \<^verbatim>\<open>getChannelData(ch)\<close> returns;
  \<^verbatim>\<open>numberOfChannels\<close> and \<^verbatim>\<open>duration\<close> are derived as the API defines them.
\<close>

record audioBuffer =
  sampleRate :: real
  buf_length :: nat
  channelData :: "real list list"

definition numberOfChannels :: "audioBuffer \<Rightarrow> nat" where
  "numberOfChannels ab = length (channelData ab)"

definition buf_duration :: "audioBuffer \<Rightarrow> real" where
  "buf_duration ab = real (buf_length ab) / sampleRate ab"

text \<open>
  The object both backends return. The WebGPU backend sets \<^verbatim>\<open>viewStart\<close> and
  \<^verbatim>\<open>viewDuration\<close>; the CPU backend leaves them out, so reading them gives
  \<^verbatim>\<open>undefined\<close>, here \<open>None\<close>.
\<close>

record Spectrogram =
  data :: "jsnum list"
  frames :: int
  bins :: nat
  hopSize :: int
  spec_sampleRate :: real
  duration :: real
  totalDuration :: real
  sliceStart :: real
  sliceDuration :: real
  viewStart :: "real option"
  viewDuration :: "real option"

text \<open>
  The exceptions of the module, by message:
  \<open>SegmentTooShort\<close> is \<^verbatim>\<open>Error('Audio segment too short for FFT size')\<close>,
  \<open>InsufficientAudioLength\<close> is \<^verbatim>\<open>Error('Insufficient audio length for spectrogram')\<close>,
  \<open>FFTSizeNotPowerOf2\<close> is \<^verbatim>\<open>Error('FFT size must be power of 2')\<close>, and
  \<open>GpuFailed\<close> is any exception of the WebGPU calls. The first two are the
  \<^emph>\<open>InsufficientLength\<close> kind of the specification.
\<close>

datatype error = SegmentTooShort | InsufficientAudioLength | FFTSizeNotPowerOf2 | GpuFailed

definition InsufficientLength :: "error \<Rightarrow> bool" where
  "InsufficientLength e = (e = SegmentTooShort \<or> e = InsufficientAudioLength)"

text \<open>
  The Hann window. Its weights lie between 0 and 1, like the entries of the sine and
  cosine tables of the FFT between \<open>- 1\<close> and 1: they are finite, and reals here.
\<close>

definition buildHann :: "nat \<Rightarrow> real list" where
  "buildHann fftSize =
     map (\<lambda>i. 0.5 * (1 - cos ((2 * pi * real i) / (real fftSize - 1)))) [0..<fftSize]"

subsection \<open>The CPU FFT\<close>

text \<open>
  \<^verbatim>\<open>Math.log2(size)\<close>, which is an exact integer for the powers of two that pass the
  size check of \<^verbatim>\<open>createFFT\<close>.
\<close>

fun levels_of :: "nat \<Rightarrow> nat" where
  "levels_of n = (if n < 2 then 0 else Suc (levels_of (n div 2)))"

declare levels_of.simps [simp del]

text \<open>The inner loop of the bit-reversal table: \<open>j\<close> counts the remaining rounds.\<close>

fun bitrev_loop :: "nat \<Rightarrow> nat \<Rightarrow> nat \<Rightarrow> nat" where
  "bitrev_loop 0 x y = y"
| "bitrev_loop (Suc j) x y = bitrev_loop j (drop_bit 1 x) (push_bit 1 y OR (x AND 1))"

record FFT =
  fft_size :: nat
  rev_table :: "nat list"
  sinTable :: "real list"
  cosTable :: "real list"

definition createFFT :: "nat \<Rightarrow> error + FFT" where
  "createFFT sz =
     (if sz AND (sz - 1) \<noteq> 0 then Inl FFTSizeNotPowerOf2
      else
        let levels = levels_of sz in
        Inr \<lparr>fft_size = sz,
             rev_table = map (\<lambda>i. bitrev_loop levels i 0) [0..<sz],
             sinTable = map (\<lambda>i. sin (- 2 * pi * real i / real sz)) [0..<sz div 2],
             cosTable = map (\<lambda>i. cos (- 2 * pi * real i / real sz)) [0..<sz div 2]\<rparr>)"

type_synonym buffers = "jsnum list \<times> jsnum list"

text \<open>One round of the permutation loop of \<^verbatim>\<open>transform\<close>.\<close>

definition swap_step :: "nat list \<Rightarrow> nat \<Rightarrow> buffers \<Rightarrow> buffers" where
  "swap_step rv i = (\<lambda>(re, im).
     let j = rv ! i in
     if j > i then (re[i := re ! j, j := re ! i], im[i := im ! j, j := im ! i])
     else (re, im))"

text \<open>
  The body of the innermost loop of \<^verbatim>\<open>transform\<close>: one butterfly. The products and
  sums are double-precision values; each assignment stores into a \<^verbatim>\<open>Float32Array\<close>.
\<close>

definition butterfly :: "FFT \<Rightarrow> nat \<Rightarrow> nat \<Rightarrow> nat \<Rightarrow> nat \<Rightarrow> buffers \<Rightarrow> buffers" where
  "butterfly fft i half step j = (\<lambda>(re, im).
     let k = j * step;
         cs = Fin (cosTable fft ! k);
         sn = Fin (sinTable fft ! k);
         tre = re ! (i + j + half) * cs - im ! (i + j + half) * sn;
         tim = re ! (i + j + half) * sn + im ! (i + j + half) * cs;
         re1 = re[i + j + half := f32 (re ! (i + j) - tre)];
         im1 = im[i + j + half := f32 (im ! (i + j) - tim)];
         re2 = re1[i + j := f32 (re1 ! (i + j) + tre)];
         im2 = im1[i + j := f32 (im1 ! (i + j) + tim)]
     in (re2, im2))"

text \<open>
  \<^verbatim>\<open>for (let i = 0; i < n; i += len)\<close> around \<^verbatim>\<open>for (let j = 0; j < half; j++)\<close>.
  The stage length \<open>len\<close> starts at 2 and only doubles, so it is never 0; the test
  \<open>0 < len\<close> only makes the recursion total.
\<close>

function block_loop :: "FFT \<Rightarrow> nat \<Rightarrow> nat \<Rightarrow> nat \<Rightarrow> buffers \<Rightarrow> buffers" where
  "block_loop fft n len i b =
     (if i < n \<and> 0 < len
      then block_loop fft n len (i + len)
             (fold (butterfly fft i (drop_bit 1 len) (fft_size fft div len)) [0..<drop_bit 1 len] b)
      else b)"
  by pat_completeness auto
termination
  by (relation "measure (\<lambda>(fft, n, len, i, b). n - i)") auto

declare block_loop.simps [simp del]

text \<open>\<^verbatim>\<open>for (let len = 2; len <= n; len <<= 1)\<close>\<close>

function stage_loop :: "FFT \<Rightarrow> nat \<Rightarrow> nat \<Rightarrow> buffers \<Rightarrow> buffers" where
  "stage_loop fft n len b =
     (if len \<le> n \<and> 0 < len
      then stage_loop fft n (push_bit 1 len) (block_loop fft n len 0 b)
      else b)"
  by pat_completeness auto
termination
  by (relation "measure (\<lambda>(fft, n, len, b). Suc n - len)") (auto simp: push_bit_eq_mult)

declare stage_loop.simps [simp del]

definition transform :: "FFT \<Rightarrow> buffers \<Rightarrow> buffers" where
  "transform fft b =
     (let n = fft_size fft in
      stage_loop fft n 2 (fold (swap_step (rev_table fft)) [0..<n] b))"

subsection \<open>The CPU backend\<close>

text \<open>The first lines of both backends: the requested region in samples, clamped.\<close>

definition startSample_of :: "audioBuffer \<Rightarrow> real \<Rightarrow> int" where
  "startSample_of ab start = max 0 \<lfloor>start * sampleRate ab\<rfloor>"

definition endSample_of :: "audioBuffer \<Rightarrow> real \<Rightarrow> real \<Rightarrow> int" where
  "endSample_of ab start dur = min (int (buf_length ab)) \<lceil>(start + dur) * sampleRate ab\<rceil>"

definition segmentLen_of :: "audioBuffer \<Rightarrow> real \<Rightarrow> real \<Rightarrow> int" where
  "segmentLen_of ab start dur = max 0 (endSample_of ab start dur - startSample_of ab start)"

text \<open>
  \<^verbatim>\<open>Math.floor((segmentLen - fftSize) / hopSize) + 1\<close>. On integers the floor of
  the quotient is \<open>div\<close>, for a divisor other than 0; the model does not cover
  \<^verbatim>\<open>hopSize = 0\<close>, where JavaScript divides to an infinity or NaN.
\<close>

definition frameCount :: "int \<Rightarrow> nat \<Rightarrow> int \<Rightarrow> int" where
  "frameCount segmentLen fftSize hop = (segmentLen - int fftSize) div hop + 1"

text \<open>
  The samples of the audio buffer are finite single-precision values, here reals. The
  mono mix is accumulated in a \<^verbatim>\<open>Float32Array\<close>.
\<close>

definition mix_channel :: "nat \<Rightarrow> nat \<Rightarrow> real list \<Rightarrow> jsnum list \<Rightarrow> jsnum list" where
  "mix_channel startSample segmentLen src monoBuf =
     fold (\<lambda>i m. m[i := f32 (m ! i + Fin (src ! (startSample + i)))]) [0..<segmentLen] monoBuf"

definition downmix :: "audioBuffer \<Rightarrow> nat \<Rightarrow> nat \<Rightarrow> jsnum list" where
  "downmix ab startSample segmentLen =
     (let monoBuf = fold (mix_channel startSample segmentLen) (channelData ab)
                      (replicate segmentLen (Fin 0));
          invCh = 1 / max 1 (real (numberOfChannels ab))
      in fold (\<lambda>i m. m[i := f32 (m ! i * Fin invCh)]) [0..<segmentLen] monoBuf)"

definition fill_frame :: "jsnum list \<Rightarrow> real list \<Rightarrow> nat \<Rightarrow> nat \<Rightarrow> buffers \<Rightarrow> buffers" where
  "fill_frame monoBuf hann offset fftSize =
     fold (\<lambda>i (re, im).
       let idx = offset + i in
       (re[i := f32 ((if idx < length monoBuf then monoBuf ! idx else Fin 0) * Fin (hann ! i))],
        im[i := Fin 0]))
     [0..<fftSize]"

text \<open>
  \<^verbatim>\<open>Math.hypot(re[b], im[b])\<close>, stored in the \<^verbatim>\<open>Float32Array\<close> \<^verbatim>\<open>data\<close> and
  tracked, unrounded, as the running peak.
\<close>

definition write_mags :: "nat \<Rightarrow> nat \<Rightarrow> buffers \<Rightarrow> jsnum list \<times> jsnum \<Rightarrow> jsnum list \<times> jsnum" where
  "write_mags base bns = (\<lambda>(re, im).
     fold (\<lambda>b (dat, peak).
       let mag = js_hypot (re ! b) (im ! b) in
       (dat[base + b := f32 mag], if peak < mag then mag else peak))
     [0..<bns])"

text \<open>
  One round of the frame loop. The frame offset \<^verbatim>\<open>frame * hopSize\<close> is a sample
  index; a run with a negative hop has a single frame, at offset 0. The cooperative
  \<^verbatim>\<open>await yieldFrame()\<close> changes no variable of the function and is left out.
\<close>

definition frame_step ::
  "jsnum list \<Rightarrow> real list \<Rightarrow> FFT \<Rightarrow> int \<Rightarrow> nat \<Rightarrow> nat \<Rightarrow> nat \<Rightarrow>
   buffers \<times> jsnum list \<times> jsnum \<Rightarrow> buffers \<times> jsnum list \<times> jsnum" where
  "frame_step monoBuf hann fft hop fftSize bns frame = (\<lambda>(b, dp).
     let offset = nat (int frame * hop);
         b1 = fill_frame monoBuf hann offset fftSize b;
         b2 = transform fft b1;
         base = frame * bns
     in (b2, write_mags base bns b2 dp))"

definition minDb :: real where
  "minDb = - 85"

definition spanDb :: real where
  "spanDb = - minDb"

definition normalize_cell :: "jsnum \<Rightarrow> jsnum \<Rightarrow> jsnum" where
  "normalize_cell peak mag =
     (let db = Fin 20 * js_log10 (mag / peak + Fin (1 / 10 ^ 12))
      in js_clamp ((db - Fin minDb) / Fin spanDb) (Fin 0) (Fin 1))"

text \<open>
  The normalization pass, the same loop in both backends; it writes back into the
  \<^verbatim>\<open>Float32Array\<close> it reads.
\<close>

definition normalizeData :: "jsnum \<Rightarrow> jsnum list \<Rightarrow> jsnum list" where
  "normalizeData peak dat =
     fold (\<lambda>i d. d[i := f32 (normalize_cell peak (d ! i))]) [0..<length dat] dat"

definition computeSpectrogramCPU ::
  "audioBuffer \<Rightarrow> real \<Rightarrow> real \<Rightarrow> int \<Rightarrow> nat \<Rightarrow> error + Spectrogram" where
  "computeSpectrogramCPU ab start dur hop fftSize =
     (let startSample = startSample_of ab start;
          segmentLen = segmentLen_of ab start dur
      in
      if segmentLen < int fftSize then Inl SegmentTooShort
      else
        let monoBuf = downmix ab (nat startSample) (nat segmentLen);
            bns = fftSize div 2;
            frms = frameCount segmentLen fftSize hop
        in
        if frms \<le> 0 then Inl InsufficientAudioLength
        else
          let hann = buildHann fftSize in
          case createFFT fftSize of
            Inl e \<Rightarrow> Inl e
          | Inr fft \<Rightarrow>
              let re = replicate fftSize (Fin 0);
                  im = replicate fftSize (Fin 0);
                  dat = replicate (nat frms * bns) (Fin 0);
                  (b, dat1, peak) =
                    fold (frame_step monoBuf hann fft hop fftSize bns) [0..<nat frms]
                      ((re, im), dat, Fin (1 / 10 ^ 9));
                  dat2 = normalizeData peak dat1
              in Inr \<lparr>data = dat2, frames = frms, bins = bns, hopSize = hop,
                      spec_sampleRate = sampleRate ab,
                      duration = buf_duration ab, totalDuration = buf_duration ab,
                      sliceStart = start, sliceDuration = dur,
                      viewStart = None, viewDuration = None\<rparr>)"

subsection \<open>The WebGPU backend and the dispatcher\<close>

text \<open>
  The compute device is outside the JavaScript program. It is a parameter: \<open>None\<close>
  when \<^verbatim>\<open>ensureWebGPU()\<close> yields no device; otherwise the function that maps the
  uploaded frame data and the number of dispatched workgroups to the contents of the
  read-back buffer (by index), or to \<open>None\<close> when a WebGPU call throws. The length of the
  read-back array is fixed by the program: \<^verbatim>\<open>outputSize = frames * bins * 4\<close> bytes.
  The uploaded frame data are means of samples times window weights, which are finite;
  what the device returns is any content of a \<^verbatim>\<open>Float32Array\<close>.
\<close>

type_synonym gpu_device = "real list \<Rightarrow> nat \<Rightarrow> (nat \<Rightarrow> jsnum) option"

definition frame_sample :: "audioBuffer \<Rightarrow> int \<Rightarrow> nat \<Rightarrow> real" where
  "frame_sample ab endSample idx =
     (if int idx < endSample
      then fold (\<lambda>ch s. s + channelData ab ! ch ! idx) [0..<numberOfChannels ab] 0
             / real (numberOfChannels ab)
      else 0)"

definition frameData_of :: "audioBuffer \<Rightarrow> int \<Rightarrow> int \<Rightarrow> int \<Rightarrow> nat \<Rightarrow> nat \<Rightarrow> real list" where
  "frameData_of ab startSample endSample hop fftSize frms =
     (let hann = buildHann fftSize in
      concat (map (\<lambda>frame.
        map (\<lambda>i. frame_sample ab endSample (nat (startSample + int frame * hop + int i)) * hann ! i)
          [0..<fftSize])
        [0..<frms]))"

definition peak_of :: "jsnum list \<Rightarrow> jsnum" where
  "peak_of outData =
     fold (\<lambda>i peak. if peak < outData ! i then outData ! i else peak) [0..<length outData]
       (Fin (1 / 10 ^ 9))"

text \<open>The result is \<open>Inr None\<close> where the function returns \<^verbatim>\<open>null\<close>.\<close>

definition computeSpectrogramWebGPU ::
  "gpu_device option \<Rightarrow> audioBuffer \<Rightarrow> real \<Rightarrow> real \<Rightarrow> int \<Rightarrow> nat \<Rightarrow> error + Spectrogram option" where
  "computeSpectrogramWebGPU device ab start dur hop fftSize =
     (case device of
        None \<Rightarrow> Inr None
      | Some dispatch \<Rightarrow>
          if fftSize \<noteq> 1024 then Inr None
          else
            let startSample = startSample_of ab start;
                endSample = endSample_of ab start dur;
                segmentLen = segmentLen_of ab start dur;
                bns = fftSize div 2;
                frms = max 1 (frameCount segmentLen fftSize hop)
            in
            if frms \<le> 0 \<or> segmentLen < int fftSize then Inr None
            else
              let frameData = frameData_of ab startSample endSample hop fftSize (nat frms) in
              (case dispatch frameData (nat frms) of
                 None \<Rightarrow> Inl GpuFailed
               | Some out \<Rightarrow>
                   let outData = map out [0..<nat frms * bns];
                       peak = peak_of outData;
                       dat = normalizeData peak outData
                   in Inr (Some \<lparr>data = dat, frames = frms, bins = bns, hopSize = hop,
                       spec_sampleRate = sampleRate ab,
                       duration = buf_duration ab, totalDuration = buf_duration ab,
                       sliceStart = start, sliceDuration = dur,
                       viewStart = Some start, viewDuration = Some dur\<rparr>)))"

text \<open>
  \<^verbatim>\<open>computeSpectrogram(opts, preferWebGPU)\<close>: the WebGPU result if there is one; the
  CPU backend when WebGPU is not preferred, returns \<^verbatim>\<open>null\<close> or throws.
\<close>

definition computeSpectrogram ::
  "gpu_device option \<Rightarrow> audioBuffer \<Rightarrow> real \<Rightarrow> real \<Rightarrow> int \<Rightarrow> nat \<Rightarrow> bool \<Rightarrow> error + Spectrogram" where
  "computeSpectrogram device ab start dur hop fftSize preferWebGPU =
     (if preferWebGPU then
        (case computeSpectrogramWebGPU device ab start dur hop fftSize of
           Inr (Some gpuSpec) \<Rightarrow> Inr gpuSpec
         | Inr None \<Rightarrow> computeSpectrogramCPU ab start dur hop fftSize
         | Inl e \<Rightarrow> computeSpectrogramCPU ab start dur hop fftSize)
      else computeSpectrogramCPU ab start dur hop fftSize)"

section \<open>Tile manager and renderer (main application)\<close>

text \<open>\<^verbatim>\<open>floorPow2(n)\<close>: \<^verbatim>\<open>let p = 1; while ((p << 1) <= n) p <<= 1; return p\<close>.
  The shift is on unbounded naturals (the program calls it with samples per pixel, far
  below \<open>2^31\<close>); \<open>p\<close> starts at 1, and the test \<open>0 < p\<close> only makes the recursion total.\<close>

function floorPow2_loop :: "nat \<Rightarrow> real \<Rightarrow> nat" where
  "floorPow2_loop p n =
     (if 0 < p \<and> real (push_bit 1 p) \<le> n then floorPow2_loop (push_bit 1 p) n else p)"
  by pat_completeness auto
termination
proof (relation "measure (\<lambda>(p, n). nat \<lceil>n\<rceil> - p)")
  show "wf (measure (\<lambda>(p, n). nat \<lceil>n\<rceil> - p))" by simp
next
  fix p :: nat and n :: real
  assume "0 < p \<and> real (push_bit 1 p) \<le> n"
  then have "0 < p" and "real (2 * p) \<le> n" by (simp_all add: push_bit_eq_mult)
  then have "2 * p \<le> nat \<lceil>n\<rceil>" by linarith
  with \<open>0 < p\<close> show "((push_bit 1 p, n), (p, n)) \<in> measure (\<lambda>(p, n). nat \<lceil>n\<rceil> - p)"
    by (simp add: push_bit_eq_mult)
qed

declare floorPow2_loop.simps [simp del]

definition floorPow2 :: "real \<Rightarrow> nat" where
  "floorPow2 n = floorPow2_loop 1 n"

text \<open>
  What the functions read from the page and from the other modules when they run:
  the \<^verbatim>\<open>enableSpectrogram\<close> checkbox (\<open>None\<close> if the element is missing),
  \<^verbatim>\<open>AudioManager.getAudioBuffer()\<close>, \<^verbatim>\<open>audio.duration\<close> when it is finite,
  \<^verbatim>\<open>performance.now()\<close>, \<^verbatim>\<open>currentSamplesPerPixel()\<close>, whether the canvas element
  and its 2D context exist, the bounding box of the container (taken to exist), the
  device pixel ratio, and the view that \<^verbatim>\<open>getSpecView()\<close> reports.
\<close>

record env =
  chkEnableSpec :: "bool option"
  audioBufferSrc :: "audioBuffer option"
  audio_duration :: "real option"
  now :: real
  samplesPerPixel :: real
  hasCanvas :: bool
  hasCtx :: bool
  containerWidth :: real
  containerHeight :: real
  devicePixelRatio :: real
  specView :: "real \<times> real"

text \<open>
  The variables of the application that the spectrogram code reads and writes, and the
  canvas: its size and its backing store, four bytes (RGBA) per pixel, row by row.
\<close>

record app_state =
  spectrogram :: "Spectrogram option"
  spectrogramRequestId :: nat
  hiResSpec :: "Spectrogram option"
  hiResRequestId :: nat
  hiResPending :: bool
  lastHiResRequestedAt :: real
  specViewStart :: real
  specViewDuration :: real
  canvasWidth :: nat
  canvasHeight :: nat
  canvasPixels :: "int list"

text \<open>\<^verbatim>\<open>chkEnableSpec && !chkEnableSpec.checked\<close>\<close>

definition specOff :: "env \<Rightarrow> bool" where
  "specOff e = (chkEnableSpec e = Some False)"

text \<open>\<^verbatim>\<open>AudioManager.getSampleRate()\<close>; \<^verbatim>\<open>null\<close> counts as 0 in arithmetic.\<close>

definition getSampleRate :: "env \<Rightarrow> real" where
  "getSampleRate e = (case audioBufferSrc e of None \<Rightarrow> 0 | Some ab \<Rightarrow> sampleRate ab)"

definition baseSPP :: real where
  "baseSPP = 2048"

definition currentPixelsPerSecond :: "env \<Rightarrow> real option" where
  "currentPixelsPerSecond e =
     (let spp = samplesPerPixel e; sr = getSampleRate e in
      if sr = 0 \<or> spp = 0 then None else Some (sr / spp))"

definition shouldUseHiRes :: "env \<Rightarrow> real \<Rightarrow> app_state \<Rightarrow> bool" where
  "shouldUseHiRes e ppsCss st =
     (case spectrogram st of
        None \<Rightarrow> False
      | Some full \<Rightarrow>
          if ppsCss = 0 then False
          else
            let zoomedIn = samplesPerPixel e < baseSPP in
            if \<not> zoomedIn then False
            else
              let baseStepSec = of_int (hopSize full) / spec_sampleRate full in
              baseStepSec > (1 / ppsCss) * 0.8)"

text \<open>
  \<^verbatim>\<open>hiResMatches\<close>. A missing \<^verbatim>\<open>viewStart\<close> or \<^verbatim>\<open>viewDuration\<close> makes the
  difference NaN, and the comparison with \<^verbatim>\<open>eps\<close> false.
\<close>

definition hiResMatches :: "app_state \<Rightarrow> real \<Rightarrow> real \<Rightarrow> int \<Rightarrow> bool" where
  "hiResMatches st vStart vDuration hop =
     (case hiResSpec st of
        None \<Rightarrow> False
      | Some h \<Rightarrow>
          let eps = 1 / 60 in
          (case viewStart h of None \<Rightarrow> False | Some hs \<Rightarrow> \<bar>hs - vStart\<bar> < eps) \<and>
          (case viewDuration h of None \<Rightarrow> False | Some hdur \<Rightarrow> \<bar>hdur - vDuration\<bar> < eps) \<and>
          hopSize h = hop)"

text \<open>\<^verbatim>\<open>Math.max(32, Math.min(4096, Utils.floorPow2(sr / ppsCss)))\<close>\<close>

definition hopTarget_of :: "real \<Rightarrow> real \<Rightarrow> int" where
  "hopTarget_of sr ppsCss = max 32 (min 4096 (int (floorPow2 (sr / ppsCss))))"

text \<open>
  A builder run that has been started: the token it was issued under and the arguments
  of its \<^verbatim>\<open>computeSpectrogram\<close> call (the FFT size is always 1024).
\<close>

record buildRequest =
  req_token :: nat
  req_audio :: audioBuffer
  req_start :: real
  req_duration :: real
  req_hopSize :: int

text \<open>
  \<^verbatim>\<open>buildHiResSpectrogram\<close> is asynchronous. Its first part runs up to the
  \<^verbatim>\<open>await\<close>: it returns the new state and the run it has started, if any.
\<close>

definition buildHiResSpectrogram_begin ::
  "env \<Rightarrow> real \<Rightarrow> real \<Rightarrow> real \<Rightarrow> app_state \<Rightarrow> app_state \<times> buildRequest option" where
  "buildHiResSpectrogram_begin e vStart vDuration ppsCss st =
     (if specOff e then (st, None)
      else case audioBufferSrc e of
        None \<Rightarrow> (st, None)
      | Some audioBuf \<Rightarrow>
          if ppsCss = 0 \<or> \<not> vDuration > 0 then (st, None)
          else if hiResPending st then (st, None)
          else
            let sr = getSampleRate e;
                hopTarget = hopTarget_of sr ppsCss
            in
            if hiResMatches st vStart vDuration hopTarget then (st, None)
            else
              let token = hiResRequestId st + 1 in
              (st\<lparr>hiResRequestId := token, hiResPending := True, lastHiResRequestedAt := now e\<rparr>,
               Some \<lparr>req_token = token, req_audio = audioBuf, req_start = vStart,
                     req_duration = vDuration, req_hopSize = hopTarget\<rparr>))"

definition maybeRequestHiRes ::
  "env \<Rightarrow> real \<Rightarrow> real \<Rightarrow> real \<Rightarrow> app_state \<Rightarrow> app_state \<times> buildRequest option" where
  "maybeRequestHiRes e vStart vDuration ppsCss st =
     (if \<not> shouldUseHiRes e ppsCss st then (st, None)
      else case audioBufferSrc e of
        None \<Rightarrow> (st, None)
      | Some audioBuf \<Rightarrow>
          let dur = (case audio_duration e of
                       Some d \<Rightarrow> d
                     | None \<Rightarrow> (case spectrogram st of Some s \<Rightarrow> totalDuration s | None \<Rightarrow> 0))
          in
          if \<not> dur > 0 then (st, None)
          else
            let sr = getSampleRate e;
                hopTarget = hopTarget_of sr ppsCss
            in
            if hiResMatches st vStart vDuration hopTarget then (st, None)
            else if hiResPending st then (st, None)
            else if now e - lastHiResRequestedAt st < 120 then (st, None)
            else
              let pad = min (vDuration * 0.25) (dur * 0.25);
                  start = clamp (vStart - pad) 0 (max 0 (dur - vDuration));
                  d = min (vDuration * 1.5) dur
              in buildHiResSpectrogram_begin e start d ppsCss st)"

subsection \<open>The renderer\<close>

text \<open>
  \<^verbatim>\<open>resizeSpectrumCanvas\<close>. Assigning a new width or height to a canvas element
  resets its backing store to transparent black.
\<close>

definition resizeSpectrumCanvas :: "env \<Rightarrow> app_state \<Rightarrow> app_state" where
  "resizeSpectrumCanvas e st =
     (if \<not> hasCanvas e then st
      else
        let dpr = (if devicePixelRatio e = 0 then 1 else devicePixelRatio e);
            targetW = nat (max 1 \<lfloor>containerWidth e * dpr\<rfloor>);
            targetH = nat (max 1 \<lfloor>containerHeight e * dpr\<rfloor>)
        in
        if canvasWidth st \<noteq> targetW \<or> canvasHeight st \<noteq> targetH
        then st\<lparr>canvasWidth := targetW, canvasHeight := targetH,
                canvasPixels := replicate (targetW * targetH * 4) 0\<rparr>
        else st)"

text \<open>\<^verbatim>\<open>ctx.clearRect(0, 0, width, height)\<close>\<close>

definition clearRect :: "app_state \<Rightarrow> app_state" where
  "clearRect st = st\<lparr>canvasPixels := replicate (canvasWidth st * canvasHeight st * 4) 0\<rparr>"

definition clearSpectrumCanvas :: "env \<Rightarrow> app_state \<Rightarrow> app_state" where
  "clearSpectrumCanvas e st =
     (if \<not> hasCanvas e then st
      else
        let st1 = resizeSpectrumCanvas e st in
        if hasCtx e then clearRect st1 else st1)"

text \<open>The colour table \<^verbatim>\<open>HEAT_LUT = buildHeatLut()\<close>: 256 entries between six stops.\<close>

type_synonym colorStop = "real \<times> real \<times> real \<times> real"

definition stops :: "colorStop list" where
  "stops = [(0, 5, 8, 17), (0.25, 32, 54, 120), (0.5, 69, 137, 205),
            (0.7, 255, 209, 102), (0.85, 255, 128, 96), (1, 255, 255, 255)]"

text \<open>The inner loop of \<^verbatim>\<open>buildHeatLut\<close>: the first pair of neighbours around \<open>t\<close>.\<close>

fun find_segment :: "colorStop list \<Rightarrow> real \<Rightarrow> (colorStop \<times> colorStop) option" where
  "find_segment (a # b # rest) t =
     (if t \<ge> fst a \<and> t \<le> fst b then Some (a, b) else find_segment (b # rest) t)"
| "find_segment _ t = None"

definition heat_entry :: "nat \<Rightarrow> int \<times> int \<times> int" where
  "heat_entry i =
     (let t = real i / 255;
          (a, b) = (case find_segment stops t of Some ab \<Rightarrow> ab | None \<Rightarrow> (hd stops, last stops));
          localT = (t - fst a) / max (1 / 10 ^ 6) (fst b - fst a);
          mix = (\<lambda>x y. Math_round (x + (y - x) * localT))
      in case (a, b) of ((_, ar, ag, ab), (_, br, bg, bb)) \<Rightarrow> (mix ar br, mix ag bg, mix ab bb))"

definition HEAT_LUT :: "(int \<times> int \<times> int) list" where
  "HEAT_LUT = map heat_entry [0..<256]"

text \<open>
  What can throw in \<^verbatim>\<open>drawSpectrogram\<close>: reading \<^verbatim>\<open>lut[0]\<close> when the table has no
  entry at the index (\<^verbatim>\<open>TypeError\<close>), and \<^verbatim>\<open>createImageData\<close> for an empty image
  (\<^verbatim>\<open>IndexSizeError\<close>).
\<close>

datatype draw_error = TypeError | IndexSizeError

definition lut_at :: "int \<Rightarrow> (int \<times> int \<times> int) option" where
  "lut_at k = (if 0 \<le> k \<and> k < int (length HEAT_LUT) then Some (HEAT_LUT ! nat k) else None)"

text \<open>
  \<^verbatim>\<open>data[k] || 0\<close>: an index outside the array reads \<^verbatim>\<open>undefined\<close>; that, and a
  cell that is NaN, is replaced by 0.
\<close>

definition data_at :: "jsnum list \<Rightarrow> int \<Rightarrow> jsnum" where
  "data_at dat k =
     (if 0 \<le> k \<and> k < int (length dat)
      then (if dat ! nat k = NaN then Fin 0 else dat ! nat k)
      else Fin 0)"

text \<open>
  \<^verbatim>\<open>Math.min(255, Math.max(0, Math.floor(v * 255)))\<close> as an index into the table. For
  NaN the expression is NaN, which indexes no entry: here \<open>- 1\<close>.
\<close>

definition lut_index :: "jsnum \<Rightarrow> int" where
  "lut_index v = (case v of
                    Fin x \<Rightarrow> min 255 (max 0 \<lfloor>x * 255\<rfloor>)
                  | PInf \<Rightarrow> 255
                  | NInf \<Rightarrow> 0
                  | NaN \<Rightarrow> - 1)"

text \<open>A loop whose body may throw: the first error ends it.\<close>

fun for_each :: "('a \<Rightarrow> 's \<Rightarrow> 'e + 's) \<Rightarrow> 'a list \<Rightarrow> 's \<Rightarrow> 'e + 's" where
  "for_each f [] s = Inr s"
| "for_each f (x # xs) s = (case f x s of Inl err \<Rightarrow> Inl err | Inr s' \<Rightarrow> for_each f xs s')"

text \<open>
  The body of the pixel loops, for column \<open>x\<close> and row \<open>y\<close>. A write past the end of the
  image array has no effect, as \<open>list_update\<close> has none.
\<close>

definition draw_pixel ::
  "Spectrogram \<Rightarrow> real \<Rightarrow> real \<Rightarrow> real \<Rightarrow> nat \<Rightarrow> nat \<Rightarrow> nat \<Rightarrow> int list \<Rightarrow> draw_error + int list" where
  "draw_pixel spec vs ppsDev binScale width x y dest =
     (let timePerFrame = of_int (hopSize spec) / spec_sampleRate spec;
          t = vs + real x / ppsDev;
          frameIdx = \<lfloor>clamp (of_int (Math_round ((t - sliceStart spec) / timePerFrame))) 0
                       (of_int (frames spec - 1))\<rfloor>;
          frameBase = frameIdx * int (bins spec);
          bin = int (bins spec) - 1 - min (int (bins spec) - 1) (Math_round (real y * binScale));
          v = data_at (data spec) (frameBase + bin)
      in case lut_at (lut_index v) of
           None \<Rightarrow> Inl TypeError
         | Some (r, g, b) \<Rightarrow>
             let p = (y * width + x) * 4 in
             Inr (dest[p := r, p + 1 := g, p + 2 := b, p + 3 := 255]))"

text \<open>
  The second half of \<^verbatim>\<open>drawSpectrogram\<close>: the image of the chosen spectrogram for
  the view. The result is the image data put on the canvas and the view written to
  \<^verbatim>\<open>specViewStart\<close> and \<^verbatim>\<open>specViewDuration\<close>. Here \<^verbatim>\<open>ppsCss\<close> is not 0 (the
  function has returned otherwise), so \<^verbatim>\<open>ppsCssEff = ppsCss || ...\<close> is \<^verbatim>\<open>ppsCss\<close>; the
  fields that the destructuring would default are present in every spectrogram. A
  division by 0 is 0 here and an infinity or NaN in JavaScript, which the clamp and
  \<^verbatim>\<open>|| 0\<close> absorb without an exception.
\<close>

definition renderSpectrogram ::
  "env \<Rightarrow> Spectrogram \<Rightarrow> real \<Rightarrow> real \<Rightarrow> real \<Rightarrow> nat \<Rightarrow> nat \<Rightarrow>
   draw_error + (int list \<times> real \<times> real)" where
  "renderSpectrogram e spec vStart vDuration ppsCss width height =
     (if width = 0 \<or> height = 0 then Inl IndexSizeError
      else
        let dpr = (if devicePixelRatio e = 0 then 1 else devicePixelRatio e);
            dest = replicate (width * height * 4) 0;
            vd0 = (if vDuration > 0 then vDuration else totalDuration spec);
            vd = min vd0 (totalDuration spec);
            vs = clamp vStart 0 (max 0 (totalDuration spec - vd));
            ppsDev = ppsCss * dpr;
            drawWidth = min (int width) (Math_round (vd * ppsDev));
            binScale = (if bins spec > 1
                        then (real (bins spec) - 1) / max 1 (real height - 1) else 0)
        in case for_each (\<lambda>x. for_each (draw_pixel spec vs ppsDev binScale width x) [0..<height])
                  [0..<nat drawWidth] dest of
             Inl err \<Rightarrow> Inl err
           | Inr img \<Rightarrow> Inr (img, vs, vd))"

text \<open>The choice \<^verbatim>\<open>useHiRes && hiResSpec ? hiResSpec : spectrogram\<close> of the renderer.\<close>

definition selectSpec :: "env \<Rightarrow> real \<Rightarrow> real \<Rightarrow> real \<Rightarrow> app_state \<Rightarrow> Spectrogram \<Rightarrow> Spectrogram" where
  "selectSpec e vStart vDuration ppsCss st full =
     (let sr = getSampleRate e;
          useHiRes = shouldUseHiRes e ppsCss st
                     \<and> hiResMatches st vStart vDuration (hopTarget_of sr ppsCss)
      in if useHiRes then (case hiResSpec st of Some h \<Rightarrow> h | None \<Rightarrow> full) else full)"

text \<open>
  \<^verbatim>\<open>drawSpectrogram(viewStart, viewDuration)\<close>. The call of the asynchronous
  \<^verbatim>\<open>maybeRequestHiRes\<close> runs its synchronous part; the result carries the builder run
  that it has started, if any.
\<close>

definition drawSpectrogram ::
  "env \<Rightarrow> real \<Rightarrow> real \<Rightarrow> app_state \<Rightarrow> draw_error + (app_state \<times> buildRequest option)" where
  "drawSpectrogram e vStart vDuration st =
     (if \<not> hasCanvas e then Inr (st, None)
      else
        let st1 = resizeSpectrumCanvas e st in
        if \<not> hasCtx e then Inr (st1, None)
        else
          let st2 = clearRect st1 in
          case spectrogram st2 of
            None \<Rightarrow> Inr (st2, None)
          | Some full \<Rightarrow>
              if frames full = 0 \<or> bins full = 0 then Inr (st2, None)
              else
                (case currentPixelsPerSecond e of
                   None \<Rightarrow> Inr (st2, None)
                 | Some ppsCss \<Rightarrow>
                     if ppsCss = 0 then Inr (st2, None)
                     else
                       let (st3, req) =
                             (if shouldUseHiRes e ppsCss st2
                              then maybeRequestHiRes e vStart vDuration ppsCss st2
                              else (st2, None));
                           spec = selectSpec e vStart vDuration ppsCss st3 full
                       in (case renderSpectrogram e spec vStart vDuration ppsCss
                                  (canvasWidth st3) (canvasHeight st3) of
                             Inl err \<Rightarrow> Inl err
                           | Inr (img, vs, vd) \<Rightarrow>
                               Inr (st3\<lparr>specViewStart := vs, specViewDuration := vd,
                                        canvasPixels := img\<rparr>, req))))"

subsection \<open>Completion of builder runs\<close>

text \<open>
  The second part of \<^verbatim>\<open>buildHiResSpectrogram\<close>, after the \<^verbatim>\<open>await\<close>, for the run
  issued under \<open>token\<close>: \<open>result\<close> is the spectrogram or the exception of
  \<^verbatim>\<open>computeSpectrogram\<close>. The boolean tells whether the assignment
  \<^verbatim>\<open>hiResSpec = spec\<close> was reached. An exception of the repaint is caught by the same
  \<^verbatim>\<open>try\<close>; \<^verbatim>\<open>finally\<close> clears \<^verbatim>\<open>hiResPending\<close> on every path.
\<close>

definition buildHiResSpectrogram_end ::
  "env \<Rightarrow> nat \<Rightarrow> error + Spectrogram \<Rightarrow> app_state \<Rightarrow> (app_state \<times> buildRequest option) \<times> bool" where
  "buildHiResSpectrogram_end e token result st =
     (case result of
        Inl err \<Rightarrow> ((st\<lparr>hiResPending := False\<rparr>, None), False)
      | Inr spec \<Rightarrow>
          if token \<noteq> hiResRequestId st then ((st\<lparr>hiResPending := False\<rparr>, None), False)
          else
            let st1 = st\<lparr>hiResSpec := Some spec\<rparr>;
                (vs, vd) = specView e
            in (case drawSpectrogram e vs vd st1 of
                  Inl err \<Rightarrow> ((st1\<lparr>hiResPending := False\<rparr>, None), True)
                | Inr (st2, req) \<Rightarrow> ((st2\<lparr>hiResPending := False\<rparr>, req), True)))"

text \<open>
  \<^verbatim>\<open>buildSpectrogram(audioBuffer)\<close> up to its \<^verbatim>\<open>await\<close>, with the hop size
  \<^verbatim>\<open>Math.max(256, Math.floor(sr * 0.02))\<close> of the full-track analysis.
\<close>

definition buildSpectrogram_begin ::
  "env \<Rightarrow> audioBuffer \<Rightarrow> app_state \<Rightarrow> app_state \<times> buildRequest option" where
  "buildSpectrogram_begin e audioBuf st =
     (let token = spectrogramRequestId st + 1;
          st1 = st\<lparr>spectrogramRequestId := token\<rparr>
      in
      if specOff e then (st1, None)
      else
        let st2 = clearSpectrumCanvas e (st1\<lparr>spectrogram := None, hiResSpec := None\<rparr>);
            sr = sampleRate audioBuf
        in (st2, Some \<lparr>req_token = token, req_audio = audioBuf, req_start = 0,
                       req_duration = buf_duration audioBuf,
                       req_hopSize = max 256 \<lfloor>sr * 0.02\<rfloor>\<rparr>))"

text \<open>
  The rest of \<^verbatim>\<open>buildSpectrogram\<close>: \<open>spec\<close> is \<open>None\<close> when the computation threw.
  The boolean tells whether the assignment \<^verbatim>\<open>spectrogram = spec\<close> was reached.
\<close>

definition buildSpectrogram_end ::
  "env \<Rightarrow> nat \<Rightarrow> Spectrogram option \<Rightarrow> app_state \<Rightarrow> (app_state \<times> buildRequest option) \<times> bool" where
  "buildSpectrogram_end e token spec st =
     (if token \<noteq> spectrogramRequestId st then ((st, None), False)
      else
        let st1 = st\<lparr>spectrogram := spec\<rparr>;
            (vs, vd) = specView e
        in case drawSpectrogram e vs vd st1 of
             Inl err \<Rightarrow> ((st1, None), True)
           | Inr (st2, req) \<Rightarrow> ((st2, req), True))"

definition teardownSpectrum :: "env \<Rightarrow> app_state \<Rightarrow> app_state" where
  "teardownSpectrum e st =
     clearSpectrumCanvas e (st\<lparr>spectrogramRequestId := spectrogramRequestId st + 1, spectrogram := None\<rparr>)"

text \<open>The spectrogram part of \<^verbatim>\<open>destroyAll\<close>.\<close>

definition destroyAll :: "env \<Rightarrow> app_state \<Rightarrow> app_state" where
  "destroyAll e st = teardownSpectrum e (st\<lparr>hiResSpec := None, hiResRequestId := hiResRequestId st + 1\<rparr>)"

text \<open>The \<^verbatim>\<open>change\<close> handler of the WebGPU checkbox.\<close>

definition webgpuChanged :: "env \<Rightarrow> app_state \<Rightarrow> app_state \<times> buildRequest option" where
  "webgpuChanged e st =
     (let st1 = st\<lparr>hiResSpec := None, hiResRequestId := hiResRequestId st + 1,
                   spectrogramRequestId := spectrogramRequestId st + 1\<rparr>
      in case audioBufferSrc e of
           Some audioBuf \<Rightarrow> buildSpectrogram_begin e audioBuf st1
         | None \<Rightarrow> (st1, None))"

subsection \<open>Runs of the application\<close>

text \<open>
  The steps that touch the spectrogram state, each with the environment it runs in.
  \<open>HiResDone\<close> and \<open>FullDone\<close> are the completions of builder runs: they carry the token
  of the run and what its computation produced. Completions may come in any order and
  with any token. \<open>Teardown\<close> is \<^verbatim>\<open>teardownSpectrum()\<close> from the handler of the
  \<^verbatim>\<open>enableSpectrogram\<close> checkbox; switching it on again is a \<open>Load\<close>.
\<close>

datatype event =
    Draw real real
  | HiResDone nat "error + Spectrogram"
  | Load audioBuffer
  | FullDone nat "Spectrogram option"
  | Teardown
  | DestroyAll
  | WebGPUChanged

text \<open>Which spectrogram a step has installed, and under which token.\<close>

datatype install = HiResInstalled nat | FullInstalled nat

definition app_step :: "env \<times> event \<Rightarrow> app_state \<Rightarrow> app_state \<times> install list" where
  "app_step ev st =
     (case ev of
        (e, Draw vs vd) \<Rightarrow>
          (case drawSpectrogram e vs vd st of Inl err \<Rightarrow> (st, []) | Inr (st', req) \<Rightarrow> (st', []))
      | (e, HiResDone token result) \<Rightarrow>
          (let ((st', req), installed) = buildHiResSpectrogram_end e token result st
           in (st', if installed then [HiResInstalled token] else []))
      | (e, Load audioBuf) \<Rightarrow> (fst (buildSpectrogram_begin e audioBuf st), [])
      | (e, FullDone token spec) \<Rightarrow>
          (let ((st', req), installed) = buildSpectrogram_end e token spec st
           in (st', if installed then [FullInstalled token] else []))
      | (e, Teardown) \<Rightarrow> (teardownSpectrum e st, [])
      | (e, DestroyAll) \<Rightarrow> (destroyAll e st, [])
      | (e, WebGPUChanged) \<Rightarrow> (fst (webgpuChanged e st), []))"

text \<open>A run: the final state and the installations, oldest first.\<close>

fun app_run :: "(env \<times> event) list \<Rightarrow> app_state \<Rightarrow> app_state \<times> install list" where
  "app_run [] st = (st, [])"
| "app_run (ev # evs) st =
     (let (st1, installs1) = app_step ev st; (st2, installs2) = app_run evs st1
      in (st2, installs1 @ installs2))"

definition hiResTokens :: "install list \<Rightarrow> nat list" where
  "hiResTokens installs =
     concat (map (\<lambda>i. case i of HiResInstalled t \<Rightarrow> [t] | FullInstalled t \<Rightarrow> []) installs)"

definition fullTokens :: "install list \<Rightarrow> nat list" where
  "fullTokens installs =
     concat (map (\<lambda>i. case i of FullInstalled t \<Rightarrow> [t] | HiResInstalled t \<Rightarrow> []) installs)"

text \<open>The variables as the application declares them, with an empty default canvas.\<close>

definition initial_state :: app_state where
  "initial_state = \<lparr>spectrogram = None, spectrogramRequestId = 0, hiResSpec = None,
     hiResRequestId = 0, hiResPending = False, lastHiResRequestedAt = 0,
     specViewStart = 0, specViewDuration = 0,
     canvasWidth = 300, canvasHeight = 150, canvasPixels = replicate (300 * 150 * 4) 0\<rparr>"

section \<open>Sample inputs and states\<close>

text \<open>A mono buffer of \<open>n\<close> zero samples at the sample rate \<open>sr\<close>.\<close>

definition silence :: "nat \<Rightarrow> real \<Rightarrow> audioBuffer" where
  "silence n sr = \<lparr>sampleRate = sr, buf_length = n, channelData = [replicate n 0]\<rparr>"

text \<open>A mono buffer of \<open>n\<close> samples of the same value \<open>a\<close> at the sample rate \<open>sr\<close>.\<close>

definition steady :: "real \<Rightarrow> nat \<Rightarrow> real \<Rightarrow> audioBuffer" where
  "steady a n sr = \<lparr>sampleRate = sr, buf_length = n, channelData = [replicate n a]\<rparr>"

text \<open>The single-precision number \<open>3 * 2^126\<close>, about \<open>2.55e38\<close>.\<close>

definition LOUD :: real where
  "LOUD = 255211775190703847597530955573826158592"

text \<open>A compute device that returns the buffer index as the magnitude of every cell.\<close>

definition ramp_device :: gpu_device where
  "ramp_device frameData n = Some (\<lambda>i. Fin (real i))"

text \<open>What the CPU backend returns for two seconds of silence at 48000 Hz.\<close>

definition silence_spec :: Spectrogram where
  "silence_spec = \<lparr>data = replicate (99 * 512) (Fin 0), frames = 99, bins = 512, hopSize = 960,
     spec_sampleRate = 48000, duration = 2, totalDuration = 2,
     sliceStart = 0, sliceDuration = 2, viewStart = None, viewDuration = None\<rparr>"

text \<open>A tile as the WebGPU backend labels it, for the window from 0 to 2 s at hop 256.\<close>

definition gpu_tile :: Spectrogram where
  "gpu_tile = silence_spec\<lparr>hopSize := 256, viewStart := Some 0, viewDuration := Some 2\<rparr>"

text \<open>A page with canvas and context, the silent track loaded, zoomed in to 256 samples
  per pixel.\<close>

definition test_env :: env where
  "test_env = \<lparr>chkEnableSpec = Some True, audioBufferSrc = Some (silence 96000 48000),
     audio_duration = Some 2, now = 1000, samplesPerPixel = 256,
     hasCanvas = True, hasCtx = True, containerWidth = 800, containerHeight = 200,
     devicePixelRatio = 1, specView = (0, 2)\<rparr>"

text \<open>A state with the full-track spectrogram, a cached tile, and token 2 issued last.\<close>

definition tile_state :: app_state where
  "tile_state = initial_state\<lparr>spectrogram := Some silence_spec, hiResSpec := Some gpu_tile,
     hiResRequestId := 2\<rparr>"

section \<open>Properties of the slider\<close>

lemma powr_root_le:
  fixes b c :: real
  assumes "0 < b" "0 \<le> c" "b \<le> c ^ n" "0 < n"
  shows "b powr (1 / real n) \<le> c"
proof -
  have "b powr (1 / real n) \<le> (c ^ n) powr (1 / real n)"
    using assms by (intro powr_mono2) auto
  also have "\<dots> = c"
    using assms by (simp add: powr_realpow' [symmetric] powr_powr)
  finally show ?thesis .
qed

lemma zoom_step_101: "factorFromSlider 101 zoomMap = 256 powr (1 / 100)"
  by (simp add: factorFromSlider_def zoomMap_def createBiLogMapping_def clamp_def)

lemma pow_11_10_100: "(256::real) \<le> (11 / 10) ^ 100"
proof -
  have "(2::real) \<le> (11 / 10) ^ 10"
    by (simp add: power_divide)
  then have "(2::real) ^ 10 \<le> ((11 / 10) ^ 10) ^ 10"
    by (intro power_mono) auto
  then show ?thesis
    by (simp add: power_mult [symmetric])
qed

lemma zoom_step_101_near_1: "\<bar>(256::real) powr (1 / 100) - 1\<bar> \<le> 1 / 10"
proof -
  have "(256::real) powr (1 / real 100) \<le> 11 / 10"
    using pow_11_10_100 by (intro powr_root_le) auto
  moreover have "1 \<le> (256::real) powr (1 / 100)"
    by (rule ge_one_powr_ge_zero) auto
  ultimately show ?thesis by simp
qed

text \<open>
  C6 (snap law). Whenever the factor that the slider position maps to lies within
  \<open>0.1\<close> of 1, the factor that \<^verbatim>\<open>applyFromSlider\<close> passes to its consumer and the
  factor that \<^verbatim>\<open>currentSliderFactor\<close> returns are exactly 1. As a consequence the
  chosen factor is never a value other than 1 inside the snap range.
\<close>

theorem snap_law:
  "(\<bar>factorFromSlider (clamp (of_int (Math_round (numberOr0 raw))) 0 (steps m)) m - 1\<bar> \<le> 1 / 10
      \<longrightarrow> fst (applyFromSlider raw m) = 1 \<and> fst (snd (applyFromSlider raw m)))
   \<and> (\<bar>factorFromSlider (numberOr0 raw) m - 1\<bar> \<le> 1 / 10 \<longrightarrow> currentSliderFactor raw m = 1)
   \<and> (\<bar>fst (applyFromSlider raw m) - 1\<bar> \<le> 1 / 10 \<longrightarrow> fst (applyFromSlider raw m) = 1)
   \<and> (\<bar>currentSliderFactor raw m - 1\<bar> \<le> 1 / 10 \<longrightarrow> currentSliderFactor raw m = 1)"
  by (simp add: applyFromSlider_def currentSliderFactor_def SNAP_RANGE_def Let_def)

theorem snap_law_witness:
  "\<bar>factorFromSlider (clamp (of_int (Math_round (numberOr0 (Some 101)))) 0 (steps zoomMap)) zoomMap - 1\<bar> \<le> 1 / 10
   \<and> factorFromSlider 101 zoomMap \<noteq> 1
   \<and> fst (applyFromSlider (Some 101) zoomMap) = 1
   \<and> currentSliderFactor (Some 101) zoomMap = 1"
proof -
  have r: "clamp (of_int (Math_round (numberOr0 (Some 101)))) 0 (steps zoomMap) = 101"
    by (simp add: Math_round_def numberOr0_def clamp_def zoomMap_def createBiLogMapping_def)
  have n: "numberOr0 (Some 101) = 101"
    by (simp add: numberOr0_def)
  have h: "\<bar>factorFromSlider 101 zoomMap - 1\<bar> \<le> 1 / 10"
    by (simp only: zoom_step_101 zoom_step_101_near_1)
  have h1: "\<bar>factorFromSlider (clamp (of_int (Math_round (numberOr0 (Some 101)))) 0 (steps zoomMap)) zoomMap - 1\<bar> \<le> 1 / 10"
    by (simp only: r h)
  have h2: "\<bar>factorFromSlider (numberOr0 (Some 101)) zoomMap - 1\<bar> \<le> 1 / 10"
    by (simp only: n h)
  have "(1::real) < 256 powr (1 / 100)"
    by (rule gr_one_powr) auto
  then have ne: "factorFromSlider 101 zoomMap \<noteq> 1"
    by (simp add: zoom_step_101)
  from snap_law [of "Some 101" zoomMap] h1 h2 ne show ?thesis
    by blast
qed

subsection \<open>Round trip through the slider\<close>

lemma powr_root_less:
  fixes b c :: real
  assumes "0 \<le> c" "c ^ n < b" "0 < n"
  shows "c < b powr (1 / real n)"
proof -
  have "c = (c ^ n) powr (1 / real n)"
    using assms by (simp add: powr_realpow' [symmetric] powr_powr)
  also have "\<dots> < b powr (1 / real n)"
    using assms by (intro powr_less_mono2) auto
  finally show ?thesis .
qed

lemma ln_256: "ln (256::real) = 8 * ln 2"
proof -
  have "ln ((2::real) ^ 8) = real 8 * ln 2" by (rule ln_realpow)
  then show ?thesis by simp
qed

lemma slider_of_2: "sliderFromFactor 2 zoomMap = 113"
  by (simp add: sliderFromFactor_def zoomMap_def createBiLogMapping_def clamp_def ln_256 Math_round_def)

lemma factor_of_113: "factorFromSlider 113 zoomMap = 256 powr (13 / 100)"
  by (simp add: factorFromSlider_def zoomMap_def createBiLogMapping_def clamp_def)

lemma powr_256_13: "(256::real) powr (13 / 100) = 2 * 2 powr (1 / 25)"
proof -
  have e: "(256::real) = 2 powr 8" by simp
  have "((2::real) powr 8) powr (13 / 100) = 2 powr (8 * (13 / 100))"
    by (rule powr_powr)
  also have "8 * (13 / 100) = 1 + (1 / 25 :: real)" by simp
  also have "(2::real) powr (1 + 1 / 25) = 2 powr 1 * 2 powr (1 / 25)"
    by (rule powr_add)
  finally show ?thesis by (simp only: e powr_one)
qed

lemma pow_101_25: "(101 / 100 :: real) ^ 25 < 2"
proof -
  have "(101 / 100 :: real) ^ 5 \<le> 11 / 10" by (simp add: power_divide)
  then have "((101 / 100 :: real) ^ 5) ^ 5 \<le> (11 / 10) ^ 5" by (intro power_mono) auto
  moreover have "(11 / 10 :: real) ^ 5 < 2" by (simp add: power_divide)
  ultimately show ?thesis by (simp add: power_mult [symmetric])
qed

lemma two_powr_25: "(101 / 100 :: real) < 2 powr (1 / 25)"
  using powr_root_less [of "101 / 100" 25 2] pow_101_25 by simp

text \<open>
  C5 (inverse law), as stated, fails: \<^verbatim>\<open>sliderFromFactor\<close> rounds to a whole slider
  step, and one step of the upper half of the zoom mapping is a ratio of \<open>256 powr (1/100)\<close>,
  about 5.7 percent. At the factor 2 the slider position is 112.5, rounded to 113, and the
  factor read back is \<open>2 * 2 powr (1/25)\<close>, more than 2 percent above 2.
\<close>

theorem roundtrip_1pct_counterexample:
  "1 / 8 \<le> (2::real) \<and> (2::real) \<le> 256 \<and>
   \<not> \<bar>factorFromSlider (of_int (sliderFromFactor 2 zoomMap)) zoomMap - 2\<bar> \<le> 2 * (1 / 100)"
  using two_powr_25 by (simp add: slider_of_2 factor_of_113 powr_256_13)

lemma zoomMap_simps:
  "map_min zoomMap = 1 / 8" "map_max zoomMap = 256" "steps zoomMap = 200" "mid zoomMap = 100"
  by (simp_all add: zoomMap_def createBiLogMapping_def)

lemma Math_round_near: "\<bar>of_int (Math_round x) - x\<bar> \<le> 1 / 2"
  unfolding Math_round_def by linarith

lemma pow_103_25: "(2::real) \<le> (103 / 100) ^ 25"
proof -
  have "(115 / 100 :: real) \<le> (103 / 100) ^ 5" by (simp add: power_divide)
  then have "(115 / 100 :: real) ^ 5 \<le> ((103 / 100) ^ 5) ^ 5" by (intro power_mono) auto
  moreover have "(2::real) \<le> (115 / 100) ^ 5" by (simp add: power_divide)
  ultimately show ?thesis by (simp add: power_mult [symmetric])
qed

lemma pow_103_200: "(256::real) \<le> (103 / 100) ^ 200"
proof -
  have "(2::real) ^ 8 \<le> ((103 / 100) ^ 25) ^ 8"
    using pow_103_25 by (intro power_mono) auto
  then show ?thesis by (simp add: power_mult [symmetric])
qed

lemma powr_small_exponent:
  fixes b d :: real
  assumes b: "1 \<le> b" "b \<le> 256" and d: "\<bar>d\<bar> \<le> 1 / 200"
  shows "\<bar>b powr d - 1\<bar> \<le> 3 / 100"
proof -
  have "b \<le> (103 / 100) ^ 200" using b pow_103_200 by linarith
  then have up: "b powr (1 / real 200) \<le> 103 / 100"
    using b by (intro powr_root_le) auto
  have pos: "0 < b powr (1 / 200)" using b by simp
  have "b powr d \<le> b powr (1 / 200)" using b d by (intro powr_mono) auto
  with up have 1: "b powr d \<le> 103 / 100" by simp
  have "b powr (- (1 / 200)) \<le> b powr d" using b d by (intro powr_mono) auto
  moreover have "b powr (- (1 / 200)) = inverse (b powr (1 / 200))" by (rule powr_minus)
  moreover have "inverse (103 / 100) \<le> inverse (b powr (1 / 200))"
    using up pos by (intro le_imp_inverse_le) auto
  ultimately have 2: "97 / 100 \<le> b powr d" by simp
  from 1 2 show ?thesis by linarith
qed

lemma factor_upper_half:
  assumes "100 \<le> v" "v \<le> 200"
  shows "factorFromSlider (of_int v) zoomMap = 256 powr ((of_int v - 100) / 100)"
  using assms by (auto simp: factorFromSlider_def zoomMap_simps clamp_def Let_def)

lemma factor_lower_half:
  assumes "0 \<le> v" "v \<le> 100"
  shows "factorFromSlider (of_int v) zoomMap = (1 / 8) * 8 powr (of_int v / 100)"
  using assms by (auto simp: factorFromSlider_def zoomMap_simps clamp_def Let_def)

text \<open>
  C5, amended: for every factor \<open>f\<close> between \<open>min = 0.125\<close> and \<open>max = 256\<close> of the
  zoom mapping (200 steps), \<^verbatim>\<open>factorFromSlider(sliderFromFactor(f))\<close> is within 3 percent
  of \<open>f\<close>: the rounding moves the position by at most half a step.
\<close>

theorem roundtrip_within_3pct:
  assumes f: "1 / 8 \<le> f" "f \<le> 256"
  shows "\<bar>factorFromSlider (of_int (sliderFromFactor f zoomMap)) zoomMap - f\<bar> \<le> (3 / 100) * f"
proof -
  have cl: "clamp f (1 / 8) 256 = f" using f by (simp add: clamp_def)
  consider (near) "\<bar>f - 1\<bar> < 1 / 10 ^ 12"
    | (low) "\<not> \<bar>f - 1\<bar> < 1 / 10 ^ 12" "f < 1"
    | (high) "\<not> \<bar>f - 1\<bar> < 1 / 10 ^ 12" "\<not> f < 1"
    by blast
  then show ?thesis
  proof cases
    case near
    then have "sliderFromFactor f zoomMap = 100"
      by (simp add: sliderFromFactor_def zoomMap_simps cl Math_round_def)
    then have "factorFromSlider (of_int (sliderFromFactor f zoomMap)) zoomMap = 1"
      by (simp add: factorFromSlider_def zoomMap_simps clamp_def)
    moreover have "(1::real) / 10 ^ 12 \<le> 3 / 800" by simp
    ultimately show ?thesis using near f by linarith
  next
    case low
    define p where "p = ln (f / (1 / 8)) / ln (1 / (1 / 8))"
    define v where "v = Math_round (p * 100)"
    have S: "sliderFromFactor f zoomMap = v"
      using low by (simp add: sliderFromFactor_def zoomMap_simps cl p_def v_def)
    have ln8: "0 < ln (8::real)" by simp
    have p': "p = ln (8 * f) / ln 8" by (simp add: p_def mult.commute)
    have "0 \<le> ln (8 * f)" using f by simp
    then have p0: "0 \<le> p" using ln8 by (simp add: p')
    have "ln (8 * f) \<le> ln 8" using f low by simp
    then have p1: "p \<le> 1" using ln8 by (simp add: p')
    have near: "\<bar>of_int v - p * 100\<bar> \<le> 1 / 2"
      unfolding v_def by (rule Math_round_near)
    have v0: "0 \<le> v" using p0 unfolding v_def Math_round_def by simp
    have "p * 100 + 1 / 2 < 101" using p1 by simp
    then have v1: "v \<le> 100" unfolding v_def Math_round_def by linarith
    have fp: "f = (1 / 8) * 8 powr p"
    proof -
      have "8 powr p = exp (p * ln 8)" by (simp add: powr_def)
      also have "p * ln 8 = ln (8 * f)" using ln8 by (simp add: p')
      also have "exp (ln (8 * f)) = 8 * f" using f by simp
      finally show ?thesis by simp
    qed
    define d where "d = of_int v / 100 - p"
    have d: "\<bar>d\<bar> \<le> 1 / 200" using near unfolding d_def by linarith
    have "8 powr (of_int v / 100) = 8 powr (p + d)" by (simp add: d_def)
    also have "\<dots> = 8 powr p * 8 powr d" by (rule powr_add)
    finally have "factorFromSlider (of_int v) zoomMap = f * 8 powr d"
      using fp by (simp add: factor_lower_half [OF v0 v1])
    then have "factorFromSlider (of_int v) zoomMap - f = f * (8 powr d - 1)"
      by (simp add: algebra_simps)
    then have "\<bar>factorFromSlider (of_int v) zoomMap - f\<bar> = f * \<bar>8 powr d - 1\<bar>"
      using f by (simp add: abs_mult)
    also have "\<dots> \<le> f * (3 / 100)"
      using f powr_small_exponent [of 8 d] d by (intro mult_left_mono) auto
    finally show ?thesis by (simp add: S mult.commute)
  next
    case high
    then have f1: "1 < f" by (simp add: abs_less_iff not_less)
    define p where "p = ln f / ln 256"
    define v where "v = Math_round (100 + p * 100)"
    have S: "sliderFromFactor f zoomMap = v"
      using high by (simp add: sliderFromFactor_def zoomMap_simps cl p_def v_def)
    have ln256: "0 < ln (256::real)" by simp
    have "0 \<le> ln f" using f1 by simp
    then have p0: "0 \<le> p" using ln256 by (simp add: p_def)
    have "ln f \<le> ln 256" using f f1 by simp
    then have p1: "p \<le> 1" using ln256 by (simp add: p_def)
    have near: "\<bar>of_int v - (100 + p * 100)\<bar> \<le> 1 / 2"
      unfolding v_def by (rule Math_round_near)
    have "100 \<le> 100 + p * 100 + 1 / 2" using p0 by simp
    then have v0: "100 \<le> v" unfolding v_def Math_round_def by linarith
    have "100 + p * 100 + 1 / 2 < 201" using p1 by simp
    then have v1: "v \<le> 200" unfolding v_def Math_round_def by linarith
    have fp: "f = 256 powr p"
    proof -
      have "256 powr p = exp (p * ln 256)" by (simp add: powr_def)
      also have "p * ln 256 = ln f" using ln256 by (simp add: p_def)
      also have "exp (ln f) = f" using f1 by simp
      finally show ?thesis by simp
    qed
    define d where "d = (of_int v - 100) / 100 - p"
    have "d = (of_int v - (100 + p * 100)) / 100"
      by (simp add: d_def field_simps)
    then have "\<bar>d\<bar> = \<bar>of_int v - (100 + p * 100)\<bar> / 100"
      by simp
    with near have d: "\<bar>d\<bar> \<le> 1 / 200" by simp
    have "256 powr ((of_int v - 100) / 100) = 256 powr (p + d)" by (simp add: d_def)
    also have "\<dots> = 256 powr p * 256 powr d" by (rule powr_add)
    finally have "factorFromSlider (of_int v) zoomMap = f * 256 powr d"
      using fp by (simp add: factor_upper_half [OF v0 v1])
    then have "factorFromSlider (of_int v) zoomMap - f = f * (256 powr d - 1)"
      by (simp add: algebra_simps)
    then have "\<bar>factorFromSlider (of_int v) zoomMap - f\<bar> = f * \<bar>256 powr d - 1\<bar>"
      using f by (simp add: abs_mult)
    also have "\<dots> \<le> f * (3 / 100)"
      using f powr_small_exponent [of 256 d] d by (intro mult_left_mono) auto
    finally show ?thesis by (simp add: S mult.commute)
  qed
qed

theorem roundtrip_within_3pct_witness:
  "1 / 8 \<le> (2::real) \<and> (2::real) \<le> 256 \<and>
   \<bar>factorFromSlider (of_int (sliderFromFactor 2 zoomMap)) zoomMap - 2\<bar> \<le> (3 / 100) * 2"
  using roundtrip_within_3pct [of 2] by simp

section \<open>Properties of the spectrogram backends\<close>

lemma fold_update_prefix:
  "n \<le> length d \<Longrightarrow>
   fold (\<lambda>i d. d[i := g (d ! i)]) [0..<n] d = map g (take n d) @ drop n d"
proof (induction n)
  case 0
  then show ?case by simp
next
  case (Suc n)
  then have n: "n < length d" by simp
  let ?d' = "map g (take n d) @ drop n d"
  have "fold (\<lambda>i d. d[i := g (d ! i)]) [0..<Suc n] d = ?d'[n := g (?d' ! n)]"
    using Suc by simp
  also have "?d' ! n = d ! n"
    using n by (simp add: nth_append)
  also have "?d'[n := g (d ! n)] = map g (take n d) @ (drop n d)[0 := g (d ! n)]"
    using n by (simp add: list_update_append)
  also have "(drop n d)[0 := g (d ! n)] = g (d ! n) # drop (Suc n) d"
    using n by (simp add: Cons_nth_drop_Suc [symmetric])
  also have "map g (take n d) @ g (d ! n) # drop (Suc n) d = map g (take (Suc n) d) @ drop (Suc n) d"
    using n by (simp add: take_Suc_conv_app_nth)
  finally show ?case .
qed

lemma normalize_map: "normalizeData peak dat = map (\<lambda>mag. f32 (normalize_cell peak mag)) dat"
  unfolding normalizeData_def
  by (simp add: fold_update_prefix [where g = "\<lambda>mag. f32 (normalize_cell peak mag)"])

lemma length_normalize: "length (normalizeData peak dat) = length dat"
  by (simp add: normalize_map)


lemma length_write_mags:
  "length (fst (write_mags base bns b dp)) = length (fst dp)"
proof -
  obtain re im where b: "b = (re, im)" by (cases b)
  have "length (fst (fold (\<lambda>b (dat, peak).
       let mag = js_hypot (re ! b) (im ! b) in
       (dat[base + b := f32 mag], if peak < mag then mag else peak)) [0..<bns] dp)) = length (fst dp)"
    by (rule fold_invariant [where Q = "\<lambda>_. True"]) (auto simp: Let_def split: prod.splits)
  then show ?thesis by (simp add: write_mags_def b)
qed

lemma length_frame_step:
  "length (fst (snd (frame_step monoBuf hann fft hop fftSize bns frame st))) = length (fst (snd st))"
  by (cases st) (simp add: frame_step_def Let_def length_write_mags)

lemma length_frame_loop:
  "length (fst (snd (fold (frame_step monoBuf hann fft hop fftSize bns) fs st))) = length (fst (snd st))"
  by (rule fold_invariant [where Q = "\<lambda>_. True"]) (simp_all add: length_frame_step)

lemma cpu_data:
  assumes "computeSpectrogramCPU ab start dur hop fftSize = Inr s"
  shows "\<exists>peak dat. data s = normalizeData peak dat
           \<and> length dat = nat (frameCount (segmentLen_of ab start dur) fftSize hop) * (fftSize div 2)"
    and "frames s = frameCount (segmentLen_of ab start dur) fftSize hop"
    and "0 < frames s"
    and "int fftSize \<le> segmentLen_of ab start dur"
    and "viewStart s = None" and "viewDuration s = None"
proof -
  let ?n = "nat (frameCount (segmentLen_of ab start dur) fftSize hop) * (fftSize div 2)"
  from assms obtain fft b dat1 peak where
    seg: "\<not> segmentLen_of ab start dur < int fftSize" and
    frm: "\<not> frameCount (segmentLen_of ab start dur) fftSize hop \<le> 0" and
    loop: "fold (frame_step (downmix ab (nat (startSample_of ab start)) (nat (segmentLen_of ab start dur)))
             (buildHann fftSize) fft hop fftSize (fftSize div 2))
             [0..<nat (frameCount (segmentLen_of ab start dur) fftSize hop)]
             ((replicate fftSize (Fin 0), replicate fftSize (Fin 0)), replicate ?n (Fin 0),
              Fin (1 / 10 ^ 9)) = (b, dat1, peak)" and
    s: "s = \<lparr>data = normalizeData peak dat1,
             frames = frameCount (segmentLen_of ab start dur) fftSize hop,
             bins = fftSize div 2, hopSize = hop, spec_sampleRate = sampleRate ab,
             duration = buf_duration ab, totalDuration = buf_duration ab,
             sliceStart = start, sliceDuration = dur, viewStart = None, viewDuration = None\<rparr>"
    unfolding computeSpectrogramCPU_def Let_def
    by (auto split: if_splits sum.splits prod.splits)
  have "length (fst (snd (b, dat1, peak))) = ?n"
    unfolding loop [symmetric] length_frame_loop by simp
  then have "length dat1 = ?n" by simp
  then show "\<exists>peak dat. data s = normalizeData peak dat \<and> length dat = ?n"
    using s by auto
  show "frames s = frameCount (segmentLen_of ab start dur) fftSize hop" using s by simp
  show "0 < frames s" using s frm by simp
  show "int fftSize \<le> segmentLen_of ab start dur" using seg by simp
  show "viewStart s = None" "viewDuration s = None" using s by simp_all
qed

lemma pow2_and_pred: "(2::nat) ^ k AND (2 ^ k - 1) = 0"
proof -
  have "(2::nat) ^ k AND mask k = 0"
    by (simp add: take_bit_eq_mask [symmetric])
  then show ?thesis
    unfolding mask_eq_exp_minus_1 .
qed

lemma createFFT_pow2: "\<exists>fft. createFFT (2 ^ k) = Inr fft \<and> fft_size fft = 2 ^ k"
  using pow2_and_pred [of k] by (simp add: createFFT_def Let_def)

lemma cpu_succeeds:
  assumes "int (2 ^ k) \<le> segmentLen_of ab start dur" "0 < hop"
  shows "\<exists>s. computeSpectrogramCPU ab start dur hop (2 ^ k) = Inr s"
proof -
  have "0 \<le> (segmentLen_of ab start dur - int (2 ^ k)) div hop"
    using assms by (simp add: pos_imp_zdiv_nonneg_iff)
  then have "\<not> frameCount (segmentLen_of ab start dur) (2 ^ k) hop \<le> 0"
    by (simp add: frameCount_def)
  moreover obtain fft where "createFFT (2 ^ k) = Inr fft"
    using createFFT_pow2 by blast
  ultimately show ?thesis
    using assms unfolding computeSpectrogramCPU_def Let_def
    by (simp split: prod.splits)
qed

lemma gpu_data:
  assumes "computeSpectrogramWebGPU device ab start dur hop fftSize = Inr (Some s)"
  shows "\<exists>peak dat. data s = normalizeData peak dat
           \<and> length dat = nat (max 1 (frameCount (segmentLen_of ab start dur) fftSize hop)) * (fftSize div 2)"
    and "frames s = max 1 (frameCount (segmentLen_of ab start dur) fftSize hop)"
    and "int fftSize \<le> segmentLen_of ab start dur"
    and "fftSize = 1024"
    and "viewStart s = Some start" and "viewDuration s = Some dur"
proof -
  let ?frms = "max 1 (frameCount (segmentLen_of ab start dur) fftSize hop)"
  from assms obtain out where
    fft: "fftSize = 1024" and seg: "\<not> segmentLen_of ab start dur < int fftSize" and
    s: "s = \<lparr>data = normalizeData (peak_of (map out [0..<nat ?frms * (fftSize div 2)]))
                        (map out [0..<nat ?frms * (fftSize div 2)]),
             frames = ?frms, bins = fftSize div 2, hopSize = hop, spec_sampleRate = sampleRate ab,
             duration = buf_duration ab, totalDuration = buf_duration ab,
             sliceStart = start, sliceDuration = dur,
             viewStart = Some start, viewDuration = Some dur\<rparr>"
    unfolding computeSpectrogramWebGPU_def Let_def
    by (auto split: option.splits if_splits)
  have "data s = normalizeData (peak_of (map out [0..<nat ?frms * (fftSize div 2)]))
                        (map out [0..<nat ?frms * (fftSize div 2)])"
    using s by simp
  moreover have "length (map out [0..<nat ?frms * (fftSize div 2)]) = nat ?frms * (fftSize div 2)"
    by simp
  ultimately show "\<exists>peak dat. data s = normalizeData peak dat \<and> length dat = nat ?frms * (fftSize div 2)"
    by blast
  show "frames s = ?frms" using s by simp
  show "int fftSize \<le> segmentLen_of ab start dur" using seg by simp
  show "fftSize = 1024" by (rule fft)
  show "viewStart s = Some start" "viewDuration s = Some dur" using s by simp_all
qed

lemma gpu_succeeds:
  assumes "1024 \<le> segmentLen_of ab start dur"
  shows "\<exists>s. computeSpectrogramWebGPU (Some (\<lambda>frameData n. Some out)) ab start dur hop 1024 = Inr (Some s)"
  using assms unfolding computeSpectrogramWebGPU_def Let_def
  by (simp split: option.splits)

lemma dispatcher_cases:
  assumes "computeSpectrogram device ab start dur hop fftSize prefer = Inr s"
  shows "computeSpectrogramCPU ab start dur hop fftSize = Inr s
       \<or> computeSpectrogramWebGPU device ab start dur hop fftSize = Inr (Some s)"
  using assms unfolding computeSpectrogram_def
  by (auto split: if_splits sum.splits option.splits)

lemma silence_simps:
  "sampleRate (silence n sr) = sr" "buf_length (silence n sr) = n"
  "channelData (silence n sr) = [replicate n 0]" "numberOfChannels (silence n sr) = 1"
  by (simp_all add: silence_def numberOfChannels_def)

lemma segmentLen_whole:
  assumes "0 < sr"
  shows "segmentLen_of (silence n sr) 0 (real n / sr) = int n"
    and "startSample_of (silence n sr) 0 = 0"
    and "endSample_of (silence n sr) 0 (real n / sr) = int n"
  using assms by (simp_all add: segmentLen_of_def startSample_of_def endSample_of_def silence_simps)

lemma segmentLen_le_length: "segmentLen_of ab start dur \<le> int (buf_length ab)"
  by (simp add: segmentLen_of_def startSample_of_def endSample_of_def)

lemma segmentLen_nonneg: "0 \<le> segmentLen_of ab start dur"
  by (simp add: segmentLen_of_def)

text \<open>
  C2. For a positive hop and an even FFT size, whenever a backend (or the dispatcher)
  succeeds, \<^verbatim>\<open>frames\<close> is \<open>floor((segment_length - fft_size) / hop_size) + 1\<close>, where
  the segment length is the clamped sample count of the requested region, and the
  \<^verbatim>\<open>data\<close> array has \<open>frames * (fft_size / 2)\<close> cells; there is at least one frame.
\<close>

lemma frameCount_floor:
  "frameCount segmentLen fftSize hop = \<lfloor>(of_int segmentLen - real fftSize) / of_int hop\<rfloor> + 1"
proof -
  have "(of_int segmentLen - real fftSize) / of_int hop
      = (of_int (segmentLen - int fftSize) :: real) / of_int hop"
    by simp
  then show ?thesis
    unfolding frameCount_def by (simp only: floor_divide_of_int_eq)
qed

lemma frameCount_pos:
  assumes "0 < hop" "int fftSize \<le> segmentLen"
  shows "1 \<le> frameCount segmentLen fftSize hop"
  using assms by (simp add: frameCount_def pos_imp_zdiv_nonneg_iff)

theorem frames_and_data_length:
  assumes "0 < hop" and "even fftSize"
  shows "(computeSpectrogramCPU ab start dur hop fftSize = Inr s
      \<or> computeSpectrogramWebGPU device ab start dur hop fftSize = Inr (Some s)
      \<or> computeSpectrogram device ab start dur hop fftSize preferGPU = Inr s)
   \<longrightarrow> frames s = \<lfloor>(of_int (segmentLen_of ab start dur) - real fftSize) / of_int hop\<rfloor> + 1
     \<and> real (length (data s)) = of_int (frames s) * (real fftSize / 2)
     \<and> 1 \<le> frames s"
proof
  let ?fc = "frameCount (segmentLen_of ab start dur) fftSize hop"
  assume "computeSpectrogramCPU ab start dur hop fftSize = Inr s
      \<or> computeSpectrogramWebGPU device ab start dur hop fftSize = Inr (Some s)
      \<or> computeSpectrogram device ab start dur hop fftSize preferGPU = Inr s"
  then consider (cpu) "computeSpectrogramCPU ab start dur hop fftSize = Inr s"
    | (gpu) "computeSpectrogramWebGPU device ab start dur hop fftSize = Inr (Some s)"
    using dispatcher_cases by blast
  then have "frames s = ?fc \<and> length (data s) = nat ?fc * (fftSize div 2) \<and> 1 \<le> ?fc"
  proof cases
    case cpu
    from cpu_data [OF cpu] show ?thesis
      by (auto simp: length_normalize)
  next
    case gpu
    have "1 \<le> ?fc"
      using assms(1) gpu_data(3) [OF gpu] by (rule frameCount_pos)
    then have "max 1 ?fc = ?fc" by simp
    with gpu_data [OF gpu] \<open>1 \<le> ?fc\<close> show ?thesis
      by (auto simp: length_normalize)
  qed
  moreover have "real (fftSize div 2) = real fftSize / 2"
    using assms(2) by (simp add: real_of_nat_div)
  ultimately show "frames s = \<lfloor>(of_int (segmentLen_of ab start dur) - real fftSize) / of_int hop\<rfloor> + 1
     \<and> real (length (data s)) = of_int (frames s) * (real fftSize / 2)
     \<and> 1 \<le> frames s"
    by (simp add: frameCount_floor [symmetric])
qed

subsection \<open>Failure with insufficient length\<close>

lemma createFFT_cases:
  "createFFT sz = Inl FFTSizeNotPowerOf2 \<or> (\<exists>fft. createFFT sz = Inr fft)"
  by (simp add: createFFT_def Let_def)

lemma cpu_short:
  assumes "segmentLen_of ab start dur < int fftSize"
  shows "computeSpectrogramCPU ab start dur hop fftSize = Inl SegmentTooShort"
  using assms by (simp add: computeSpectrogramCPU_def Let_def)

lemma cpu_no_frames:
  assumes "\<not> segmentLen_of ab start dur < int fftSize"
    and "frameCount (segmentLen_of ab start dur) fftSize hop \<le> 0"
  shows "computeSpectrogramCPU ab start dur hop fftSize = Inl InsufficientAudioLength"
  using assms by (simp add: computeSpectrogramCPU_def Let_def)

lemma cpu_long_enough:
  assumes "\<not> segmentLen_of ab start dur < int fftSize"
    and "\<not> frameCount (segmentLen_of ab start dur) fftSize hop \<le> 0"
  shows "computeSpectrogramCPU ab start dur hop fftSize = Inl FFTSizeNotPowerOf2
       \<or> (\<exists>s. computeSpectrogramCPU ab start dur hop fftSize = Inr s)"
proof -
  from createFFT_cases [of fftSize] show ?thesis
  proof
    assume "createFFT fftSize = Inl FFTSizeNotPowerOf2"
    then show ?thesis using assms by (simp add: computeSpectrogramCPU_def Let_def)
  next
    assume "\<exists>fft. createFFT fftSize = Inr fft"
    then obtain fft where "createFFT fftSize = Inr fft" ..
    then show ?thesis using assms
      by (simp add: computeSpectrogramCPU_def Let_def split: prod.splits)
  qed
qed

lemma cpu_error_cases:
  "computeSpectrogramCPU ab start dur hop fftSize = Inl SegmentTooShort
     \<longleftrightarrow> segmentLen_of ab start dur < int fftSize"
  "computeSpectrogramCPU ab start dur hop fftSize = Inl InsufficientAudioLength
     \<longleftrightarrow> \<not> segmentLen_of ab start dur < int fftSize
         \<and> frameCount (segmentLen_of ab start dur) fftSize hop \<le> 0"
proof -
  consider (short) "segmentLen_of ab start dur < int fftSize"
    | (noframes) "\<not> segmentLen_of ab start dur < int fftSize"
        "frameCount (segmentLen_of ab start dur) fftSize hop \<le> 0"
    | (long) "\<not> segmentLen_of ab start dur < int fftSize"
        "\<not> frameCount (segmentLen_of ab start dur) fftSize hop \<le> 0"
    by blast
  then have "(computeSpectrogramCPU ab start dur hop fftSize = Inl SegmentTooShort
     \<longleftrightarrow> segmentLen_of ab start dur < int fftSize) \<and>
    (computeSpectrogramCPU ab start dur hop fftSize = Inl InsufficientAudioLength
     \<longleftrightarrow> \<not> segmentLen_of ab start dur < int fftSize
         \<and> frameCount (segmentLen_of ab start dur) fftSize hop \<le> 0)"
  proof cases
    case short
    then show ?thesis using cpu_short [OF short, of hop] by simp
  next
    case noframes
    then show ?thesis using cpu_no_frames [OF noframes] by simp
  next
    case long
    then show ?thesis using cpu_long_enough [OF long] by auto
  qed
  then show "computeSpectrogramCPU ab start dur hop fftSize = Inl SegmentTooShort
     \<longleftrightarrow> segmentLen_of ab start dur < int fftSize"
    "computeSpectrogramCPU ab start dur hop fftSize = Inl InsufficientAudioLength
     \<longleftrightarrow> \<not> segmentLen_of ab start dur < int fftSize
         \<and> frameCount (segmentLen_of ab start dur) fftSize hop \<le> 0"
    by blast+
qed

lemma gpu_null_when_short:
  assumes "segmentLen_of ab start dur < int fftSize"
  shows "computeSpectrogramWebGPU device ab start dur hop fftSize = Inr None"
  using assms unfolding computeSpectrogramWebGPU_def Let_def
  by (simp split: option.splits)

lemma dispatcher_short:
  assumes "segmentLen_of ab start dur < int fftSize"
  shows "computeSpectrogram device ab start dur hop fftSize preferGPU = Inl SegmentTooShort"
  using assms cpu_error_cases(1) [of ab start dur hop fftSize]
  by (simp add: computeSpectrogram_def gpu_null_when_short)

lemma dispatcher_error:
  assumes "computeSpectrogram device ab start dur hop fftSize preferGPU = Inl e"
  shows "computeSpectrogramCPU ab start dur hop fftSize = Inl e"
  using assms unfolding computeSpectrogram_def
  by (auto split: if_splits sum.splits option.splits)

text \<open>
  C3. The CPU backend fails with an error of the kind \<^emph>\<open>InsufficientLength\<close> exactly
  when the clamped segment is shorter than \<open>fft_size\<close> samples or the computed frame
  count is less than 1; so does the dispatcher, for a positive hop. For a buffer of 512
  samples and \<open>fft_size = 1024\<close> both fail with the segment-too-short error, whatever the
  requested region.
\<close>

theorem insufficient_length_iff:
  assumes "hop \<noteq> 0"
  shows "((\<exists>e. computeSpectrogramCPU ab start dur hop fftSize = Inl e \<and> InsufficientLength e)
           \<longleftrightarrow> (segmentLen_of ab start dur < int fftSize
                \<or> frameCount (segmentLen_of ab start dur) fftSize hop < 1))
       \<and> (0 < hop \<longrightarrow>
           ((\<exists>e. computeSpectrogram device ab start dur hop fftSize preferGPU = Inl e \<and> InsufficientLength e)
             \<longleftrightarrow> (segmentLen_of ab start dur < int fftSize
                  \<or> frameCount (segmentLen_of ab start dur) fftSize hop < 1)))
       \<and> (buf_length ab = 512 \<longrightarrow>
            computeSpectrogramCPU ab start dur hop 1024 = Inl SegmentTooShort
          \<and> computeSpectrogram device ab start dur hop 1024 preferGPU = Inl SegmentTooShort)"
proof (intro conjI impI)
  let ?short = "segmentLen_of ab start dur < int fftSize"
  let ?fc = "frameCount (segmentLen_of ab start dur) fftSize hop"
  show cpu: "(\<exists>e. computeSpectrogramCPU ab start dur hop fftSize = Inl e \<and> InsufficientLength e)
           \<longleftrightarrow> (?short \<or> ?fc < 1)"
    using cpu_error_cases [of ab start dur hop fftSize]
    unfolding InsufficientLength_def by (cases "?short") auto
  {
    assume hop: "0 < hop"
    show "(\<exists>e. computeSpectrogram device ab start dur hop fftSize preferGPU = Inl e \<and> InsufficientLength e)
             \<longleftrightarrow> (?short \<or> ?fc < 1)"
    proof (cases ?short)
      case True
      then show ?thesis
        using dispatcher_short [of ab start dur fftSize device hop preferGPU]
        by (auto simp: InsufficientLength_def)
    next
      case False
      then have "1 \<le> ?fc" using hop by (intro frameCount_pos) auto
      then have "\<not> (\<exists>e. computeSpectrogramCPU ab start dur hop fftSize = Inl e \<and> InsufficientLength e)"
        using cpu False by auto
      then have "\<not> (\<exists>e. computeSpectrogram device ab start dur hop fftSize preferGPU = Inl e \<and> InsufficientLength e)"
        using dispatcher_error by blast
      then show ?thesis using False \<open>1 \<le> ?fc\<close> by auto
    qed
  }
  {
    assume len: "buf_length ab = 512"
    have short: "segmentLen_of ab start dur < int 1024"
      using segmentLen_le_length [of ab start dur] len by simp
    show "computeSpectrogramCPU ab start dur hop 1024 = Inl SegmentTooShort"
      using short cpu_error_cases(1) [of ab start dur hop 1024] by simp
    show "computeSpectrogram device ab start dur hop 1024 preferGPU = Inl SegmentTooShort"
      using short by (rule dispatcher_short)
  }
qed

lemma segmentLen_silence:
  assumes "0 < sr" "0 \<le> d"
  shows "segmentLen_of (silence n sr) 0 d = min (int n) \<lceil>d * sr\<rceil>"
proof -
  have "0 \<le> d * sr" using assms by simp
  then have "0 \<le> \<lceil>d * sr\<rceil>" by linarith
  then show ?thesis
    by (simp add: segmentLen_of_def startSample_of_def endSample_of_def silence_simps)
qed

lemma gpu_succeeds_ramp:
  assumes "1024 \<le> segmentLen_of ab start dur"
  shows "\<exists>s. computeSpectrogramWebGPU (Some ramp_device) ab start dur hop 1024 = Inr (Some s)"
proof -
  have "ramp_device = (\<lambda>frameData n. Some (\<lambda>i. Fin (real i)))"
    by (intro ext) (simp add: ramp_device_def)
  then show ?thesis using gpu_succeeds [OF assms, of "\<lambda>i. Fin (real i)" hop] by simp
qed

theorem frames_and_data_length_witness:
  "(0::int) < 512 \<and> even (1024::nat)
   \<and> (\<exists>s. computeSpectrogramCPU (silence 4096 1024) 0 4 512 1024 = Inr s
          \<and> frames s = 7 \<and> length (data s) = 3584)"
proof -
  have seg: "segmentLen_of (silence 4096 1024) 0 4 = 4096"
    by (simp add: segmentLen_silence)
  have "int (2 ^ 10) \<le> segmentLen_of (silence 4096 1024) 0 4"
    by (simp add: seg)
  then obtain s where "computeSpectrogramCPU (silence 4096 1024) 0 4 512 (2 ^ 10) = Inr s"
    using cpu_succeeds [of 10 "silence 4096 1024" 0 4 512] by auto
  then have s: "computeSpectrogramCPU (silence 4096 1024) 0 4 512 1024 = Inr s"
    by simp
  have "frames s = \<lfloor>(of_int (segmentLen_of (silence 4096 1024) 0 4) - real 1024) / of_int 512\<rfloor> + 1
     \<and> real (length (data s)) = of_int (frames s) * (real 1024 / 2)"
    using frames_and_data_length [of 512 1024 "silence 4096 1024" 0 4 s] s by simp
  then have "frames s = 7 \<and> real (length (data s)) = 3584"
    by (simp add: seg)
  then have "frames s = 7 \<and> length (data s) = 3584"
    by (metis of_nat_eq_iff of_nat_numeral)
  with s show ?thesis by auto
qed

theorem insufficient_length_iff_witness:
  "(960::int) \<noteq> 0 \<and> buf_length (silence 512 48000) = 512
   \<and> segmentLen_of (silence 512 48000) 0 1 < int 1024
   \<and> computeSpectrogramCPU (silence 512 48000) 0 1 960 1024 = Inl SegmentTooShort
   \<and> computeSpectrogram (Some ramp_device) (silence 512 48000) 0 1 960 1024 True = Inl SegmentTooShort
   \<and> (\<exists>e. computeSpectrogramCPU (silence 512 48000) 0 1 960 1024 = Inl e \<and> InsufficientLength e)"
proof -
  have len: "buf_length (silence 512 48000) = 512"
    by (simp add: silence_simps)
  have seg: "segmentLen_of (silence 512 48000) 0 1 < int 1024"
    by (simp add: segmentLen_silence)
  from insufficient_length_iff [of 960 "silence 512 48000" 0 1 1024 "Some ramp_device" True] len seg
  show ?thesis by (simp add: InsufficientLength_def)
qed

subsection \<open>Silence\<close>

lemma fold_fixed:
  assumes "\<And>x. x \<in> set xs \<Longrightarrow> f x s = s"
  shows "fold f xs s = s"
  using assms by (induction xs) simp_all

lemma Fin_minus [simp]: "Fin a - Fin b = Fin (a - b)"
  by (simp add: minus_jsnum_def)

lemma f32_zero [simp]: "f32 (Fin 0) = Fin 0"
  by (simp add: f32_def F32_OVERFLOW_def)

lemma update_zeros: "(replicate n (Fin 0))[i := Fin 0] = replicate n (Fin 0)"
proof (cases "i < n")
  case True
  then have "(replicate n (Fin 0))[i := replicate n (Fin 0) ! i] = replicate n (Fin 0)"
    by (intro list_update_id)
  then show ?thesis using True by simp
next
  case False
  then show ?thesis by (simp add: list_update_beyond)
qed

lemma levels_of_pow2: "levels_of (2 ^ k) = k"
proof (induction k)
  case 0
  then show ?case by (simp add: levels_of.simps)
next
  case (Suc k)
  have "\<not> (2::nat) ^ Suc k < 2" by (simp add: not_less) 
  then have "levels_of (2 ^ Suc k) = Suc (levels_of (2 ^ Suc k div 2))"
    by (subst levels_of.simps) simp
  then show ?case using Suc by simp
qed

lemma or_bit_le: "push_bit 1 (y::nat) OR (x AND 1) \<le> 2 * y + 1"
proof (cases "even x")
  case True
  then show ?thesis by (simp add: and_one_eq push_bit_eq_mult)
next
  case False
  then have x: "x AND 1 = 1" by (simp add: and_one_eq odd_iff_mod_2_eq_one)
  have "2 * y OR 1 = 2 * y + of_bool (even (2 * y))" by (rule or_one_eq)
  then have "2 * y OR 1 = 2 * y + 1" by simp
  then show ?thesis unfolding x push_bit_eq_mult by (simp add: mult.commute)
qed

lemma bitrev_loop_bound: "bitrev_loop j x y < 2 ^ j * (y + 1)"
proof (induction j arbitrary: x y)
  case 0
  then show ?case by simp
next
  case (Suc j)
  have "bitrev_loop (Suc j) x y < 2 ^ j * ((push_bit 1 y OR (x AND 1)) + 1)"
    using Suc.IH by simp
  also have "\<dots> \<le> 2 ^ j * ((2 * y + 1) + 1)"
    using or_bit_le [of y x] by (intro mult_le_mono2) simp
  also have "\<dots> = 2 ^ Suc j * (y + 1)" by simp
  finally show ?case .
qed

lemma rev_table_bound:
  assumes "createFFT (2 ^ k) = Inr fft" "i < 2 ^ k"
  shows "rev_table fft ! i < 2 ^ k"
proof -
  have "rev_table fft = map (\<lambda>i. bitrev_loop (levels_of (2 ^ k)) i 0) [0..<2 ^ k]"
    using assms(1) by (auto simp: createFFT_def Let_def split: if_splits)
  then have "rev_table fft ! i = bitrev_loop k i 0"
    using assms(2) by (simp add: levels_of_pow2)
  then show ?thesis using bitrev_loop_bound [of k i 0] by simp
qed

lemma fft_size_createFFT:
  assumes "createFFT sz = Inr fft"
  shows "fft_size fft = sz"
  using assms by (auto simp: createFFT_def Let_def split: if_splits)

lemma swap_step_zeros:
  assumes "i < n" "rv ! i < n"
  shows "swap_step rv i (replicate n (Fin 0), replicate n (Fin 0)) = (replicate n (Fin 0), replicate n (Fin 0))"
  using assms by (simp add: swap_step_def Let_def update_zeros)

lemma butterfly_zeros:
  assumes "i + j + half < n"
  shows "butterfly fft i half step j (replicate n (Fin 0), replicate n (Fin 0)) = (replicate n (Fin 0), replicate n (Fin 0))"
  using assms by (simp add: butterfly_def Let_def update_zeros)

lemma butterflies_zeros:
  assumes "i + 2 * half \<le> n"
  shows "fold (butterfly fft i half step) [0..<half] (replicate n (Fin 0), replicate n (Fin 0))
       = (replicate n (Fin 0), replicate n (Fin 0))"
  using assms by (intro fold_fixed butterfly_zeros) simp

lemma block_loop_zeros_aux:
  assumes "len dvd n" "len dvd i" "b = (replicate n (Fin 0), replicate n (Fin 0))"
  shows "block_loop fft n len i b = (replicate n (Fin 0), replicate n (Fin 0))"
  using assms
proof (induction fft n len i b rule: block_loop.induct)
  case (1 fft n len i b)
  show ?case
  proof (cases "i < n \<and> 0 < len")
    case True
    obtain a c where a: "n = len * a" and c: "i = len * c"
      using "1.prems" by (auto simp: dvd_def)
    have "c < a" using True a c by simp
    then have "Suc c \<le> a" by simp
    then have "len * Suc c \<le> len * a" by (rule mult_le_mono2)
    then have le: "i + len \<le> n" using a c by simp
    have "2 * drop_bit 1 len \<le> len" by (simp add: drop_bit_eq_div)
    with le have "i + 2 * drop_bit 1 len \<le> n" by simp
    then have inner: "fold (butterfly fft i (drop_bit 1 len) (fft_size fft div len)) [0..<drop_bit 1 len] b = (replicate n (Fin 0), replicate n (Fin 0))"
      unfolding \<open>b = (replicate n (Fin 0), replicate n (Fin 0))\<close> by (rule butterflies_zeros)
    have "len dvd i + len" using "1.prems" by simp
    then have "block_loop fft n len (i + len)
        (fold (butterfly fft i (drop_bit 1 len) (fft_size fft div len)) [0..<drop_bit 1 len] b) = (replicate n (Fin 0), replicate n (Fin 0))"
      using "1.IH" [OF True] inner "1.prems" by simp
    moreover have "block_loop fft n len i b = block_loop fft n len (i + len)
        (fold (butterfly fft i (drop_bit 1 len) (fft_size fft div len)) [0..<drop_bit 1 len] b)"
      using True by (subst block_loop.simps) simp
    ultimately show ?thesis by simp
  next
    case False
    have "block_loop fft n len i b = b"
      using False by (subst block_loop.simps) auto
    then show ?thesis using "1.prems" by simp
  qed
qed

lemma block_loop_zeros:
  assumes "len dvd n" "len dvd i"
  shows "block_loop fft n len i (replicate n (Fin 0), replicate n (Fin 0)) = (replicate n (Fin 0), replicate n (Fin 0))"
  using assms by (intro block_loop_zeros_aux) simp_all

lemma stage_loop_zeros_aux:
  assumes "n = 2 ^ k" "len = 2 ^ s" "b = (replicate n (Fin 0), replicate n (Fin 0))"
  shows "stage_loop fft n len b = (replicate n (Fin 0), replicate n (Fin 0))"
  using assms
proof (induction fft n len b arbitrary: s rule: stage_loop.induct)
  case (1 fft n len b)
  show ?case
  proof (cases "len \<le> n \<and> 0 < len")
    case True
    then have "(2::nat) ^ s \<le> 2 ^ k" using "1.prems" by simp
    then have "s \<le> k" by simp
    then have dvd: "len dvd n" using "1.prems" by (simp add: le_imp_power_dvd)
    have blk: "block_loop fft n len 0 b = (replicate n (Fin 0), replicate n (Fin 0))"
      unfolding \<open>b = (replicate n (Fin 0), replicate n (Fin 0))\<close> using dvd by (intro block_loop_zeros) simp_all
    have "push_bit 1 len = 2 ^ Suc s" using "1.prems" by (simp add: push_bit_eq_mult)
    then have "stage_loop fft n (push_bit 1 len) (block_loop fft n len 0 b) = (replicate n (Fin 0), replicate n (Fin 0))"
      using "1.IH" [OF True] blk "1.prems" by blast
    moreover have "stage_loop fft n len b = stage_loop fft n (push_bit 1 len) (block_loop fft n len 0 b)"
      using True by (subst stage_loop.simps) simp
    ultimately show ?thesis by simp
  next
    case False
    have "stage_loop fft n len b = b"
      using False by (subst stage_loop.simps) auto
    then show ?thesis using "1.prems" by simp
  qed
qed

lemma stage_loop_zeros:
  assumes "len = 2 ^ s"
  shows "stage_loop fft (2 ^ k) len (replicate (2 ^ k) (Fin 0), replicate (2 ^ k) (Fin 0)) = (replicate (2 ^ k) (Fin 0), replicate (2 ^ k) (Fin 0))"
  using assms by (intro stage_loop_zeros_aux [where k = k and s = s]) simp_all

lemma transform_zeros:
  assumes "createFFT (2 ^ k) = Inr fft"
  shows "transform fft (replicate (2 ^ k) (Fin 0), replicate (2 ^ k) (Fin 0))
       = (replicate (2 ^ k) (Fin 0), replicate (2 ^ k) (Fin 0))"
proof -
  have n: "fft_size fft = 2 ^ k" using assms by (rule fft_size_createFFT)
  have "fold (swap_step (rev_table fft)) [0..<2 ^ k] (replicate (2 ^ k) (Fin 0), replicate (2 ^ k) (Fin 0))
      = (replicate (2 ^ k) (Fin 0), replicate (2 ^ k) (Fin 0))"
    using rev_table_bound [OF assms] by (intro fold_fixed swap_step_zeros) simp_all
  moreover have "stage_loop fft (2 ^ k) 2 (replicate (2 ^ k) (Fin 0), replicate (2 ^ k) (Fin 0))
      = (replicate (2 ^ k) (Fin 0), replicate (2 ^ k) (Fin 0))"
    by (rule stage_loop_zeros [where s = 1]) simp
  ultimately show ?thesis by (simp add: transform_def n Let_def)
qed

lemma mix_channel_zeros:
  assumes "startSample + segmentLen \<le> L"
  shows "mix_channel startSample segmentLen (replicate L 0) (replicate segmentLen (Fin 0))
       = replicate segmentLen (Fin 0)"
  unfolding mix_channel_def
  using assms by (intro fold_fixed) (simp add: update_zeros)

lemma scale_zeros:
  "fold (\<lambda>i m. m[i := f32 (m ! i * Fin c)]) [0..<n] (replicate n (Fin 0)) = replicate n (Fin 0)"
  by (intro fold_fixed) (simp add: update_zeros)

lemma downmix_silence:
  assumes "startSample + segmentLen \<le> n"
  shows "downmix (silence n sr) startSample segmentLen = replicate segmentLen (Fin 0)"
proof -
  have "fold (mix_channel startSample segmentLen) (channelData (silence n sr)) (replicate segmentLen (Fin 0))
      = replicate segmentLen (Fin 0)"
    using assms by (simp add: silence_simps mix_channel_zeros)
  then show ?thesis
    unfolding downmix_def Let_def by (simp only: scale_zeros)
qed

lemma fill_frame_zeros:
  "fill_frame (replicate m (Fin 0)) hann offset n (replicate n (Fin 0), replicate n (Fin 0))
     = (replicate n (Fin 0), replicate n (Fin 0))"
  unfolding fill_frame_def
  by (intro fold_fixed) (simp add: Let_def update_zeros)

lemma write_mags_zeros:
  assumes "bns \<le> n" "0 \<le> p"
  shows "write_mags base bns (replicate n (Fin 0), replicate n (Fin 0)) (replicate d (Fin 0), Fin p)
       = (replicate d (Fin 0), Fin p)"
proof -
  have "fold (\<lambda>b (dat, peak).
       let mag = js_hypot (replicate n (Fin 0) ! b) (replicate n (Fin 0) ! b) in
       (dat[base + b := f32 mag], if peak < mag then mag else peak)) [0..<bns]
         (replicate d (Fin 0), Fin p)
     = (replicate d (Fin 0), Fin p)"
    using assms by (intro fold_fixed) (simp add: Let_def update_zeros js_hypot_def)
  then show ?thesis by (simp add: write_mags_def)
qed

lemma frame_step_zeros:
  assumes "createFFT (2 ^ k) = Inr fft" "0 \<le> p"
  shows "frame_step (replicate m (Fin 0)) hann fft hop (2 ^ k) (2 ^ k div 2) frame
           ((replicate (2 ^ k) (Fin 0), replicate (2 ^ k) (Fin 0)), replicate d (Fin 0), Fin p)
       = ((replicate (2 ^ k) (Fin 0), replicate (2 ^ k) (Fin 0)), replicate d (Fin 0), Fin p)"
proof -
  have "(2::nat) ^ k div 2 \<le> 2 ^ k" by simp
  then show ?thesis
    using assms(2)
    by (simp add: frame_step_def Let_def fill_frame_zeros transform_zeros [OF assms(1)] write_mags_zeros)
qed

lemma frame_loop_zeros:
  assumes "createFFT (2 ^ k) = Inr fft" "0 \<le> p"
  shows "fold (frame_step (replicate m (Fin 0)) hann fft hop (2 ^ k) (2 ^ k div 2)) fs
           ((replicate (2 ^ k) (Fin 0), replicate (2 ^ k) (Fin 0)), replicate d (Fin 0), Fin p)
       = ((replicate (2 ^ k) (Fin 0), replicate (2 ^ k) (Fin 0)), replicate d (Fin 0), Fin p)"
  using assms by (intro fold_fixed frame_step_zeros)

lemma log10_tiny: "log 10 (1 / 10 ^ 12) = - 12"
proof -
  have "log 10 (1 / 10 ^ 12) = - log 10 ((10::real) ^ 12)"
    by (rule log_recip)
  also have "log 10 ((10::real) ^ 12) = real 12"
    by (rule log_pow_cancel) simp_all
  finally show ?thesis by simp
qed

lemma normalize_cell_zero:
  assumes "0 < p"
  shows "normalize_cell (Fin p) (Fin 0) = Fin 0"
proof -
  have "Fin 0 / Fin p + Fin (1 / 10 ^ 12) = Fin (1 / 10 ^ 12)"
    using assms by simp
  then have "normalize_cell (Fin p) (Fin 0)
      = js_clamp ((Fin 20 * js_log10 (Fin (1 / 10 ^ 12)) - Fin minDb) / Fin spanDb) (Fin 0) (Fin 1)"
    unfolding normalize_cell_def Let_def by (simp only:)
  also have "js_log10 (Fin (1 / 10 ^ 12)) = Fin (- 12)"
    unfolding js_log10_def jsnum.case log10_tiny by simp
  also have "js_clamp ((Fin 20 * Fin (- 12) - Fin minDb) / Fin spanDb) (Fin 0) (Fin 1) = Fin 0"
    by (simp add: minDb_def spanDb_def js_clamp_def js_max_def js_min_def)
  finally show ?thesis .
qed

lemma normalize_zeros:
  assumes "0 < p"
  shows "normalizeData (Fin p) (replicate d (Fin 0)) = replicate d (Fin 0)"
  unfolding normalize_map by (simp add: normalize_cell_zero [OF assms])

lemma cpu_silence:
  assumes seg: "segmentLen_of (silence n sr) start dur = int segmentLen"
    and st: "startSample_of (silence n sr) start = int startSample"
    and fit: "startSample + segmentLen \<le> n"
    and long: "2 ^ k \<le> segmentLen"
    and hop: "0 < hop"
  shows "computeSpectrogramCPU (silence n sr) start dur hop (2 ^ k) =
     Inr \<lparr>data = replicate (nat (frameCount (int segmentLen) (2 ^ k) hop) * (2 ^ k div 2)) (Fin 0),
          frames = frameCount (int segmentLen) (2 ^ k) hop,
          bins = 2 ^ k div 2, hopSize = hop, spec_sampleRate = sr,
          duration = real n / sr, totalDuration = real n / sr,
          sliceStart = start, sliceDuration = dur,
          viewStart = None, viewDuration = None\<rparr>"
proof -
  obtain fft where fft: "createFFT (2 ^ k) = Inr fft"
    using createFFT_pow2 by blast
  have "int (2 ^ k) \<le> int segmentLen" using long by (simp only: of_nat_le_iff)
  then have fc: "\<not> frameCount (int segmentLen) (2 ^ k) hop \<le> 0"
    using frameCount_pos [OF hop, of "2 ^ k" "int segmentLen"] by simp
  have short: "\<not> int segmentLen < int (2 ^ k)" using long by (simp only: of_nat_less_iff not_less)
  have tiny: "(0::real) < 1 / 10 ^ 9" by simp
  have loop: "fold (frame_step (replicate segmentLen (Fin 0)) (buildHann (2 ^ k)) fft hop (2 ^ k) (2 ^ k div 2))
        [0..<nat (frameCount (int segmentLen) (2 ^ k) hop)]
        ((replicate (2 ^ k) (Fin 0), replicate (2 ^ k) (Fin 0)),
         replicate (nat (frameCount (int segmentLen) (2 ^ k) hop) * (2 ^ k div 2)) (Fin 0), Fin (1 / 10 ^ 9))
      = ((replicate (2 ^ k) (Fin 0), replicate (2 ^ k) (Fin 0)),
         replicate (nat (frameCount (int segmentLen) (2 ^ k) hop) * (2 ^ k div 2)) (Fin 0), Fin (1 / 10 ^ 9))"
    by (rule frame_loop_zeros [OF fft]) simp
  show ?thesis
    unfolding computeSpectrogramCPU_def Let_def seg st nat_int downmix_silence [OF fit]
    by (simp only: fc short if_False fft sum.case loop prod.case normalize_zeros [OF tiny]
        silence_simps buf_duration_def)
qed

lemma silence_result:
  "computeSpectrogramCPU (silence 96000 48000) 0 2 960 1024 =
     Inr \<lparr>data = replicate (99 * 512) (Fin 0), frames = 99, bins = 512, hopSize = 960,
          spec_sampleRate = 48000, duration = 2, totalDuration = 2,
          sliceStart = 0, sliceDuration = 2, viewStart = None, viewDuration = None\<rparr>"
proof -
  have seg: "segmentLen_of (silence 96000 48000) 0 2 = int 96000"
    by (simp add: segmentLen_silence)
  have st: "startSample_of (silence 96000 48000) 0 = int 0"
    by (simp add: startSample_of_def)
  have fc: "frameCount (int 96000) (2 ^ 10) 960 = 99"
    by (simp add: frameCount_def)
  have "computeSpectrogramCPU (silence 96000 48000) 0 2 960 (2 ^ 10) =
     Inr \<lparr>data = replicate (nat (frameCount (int 96000) (2 ^ 10) 960) * (2 ^ 10 div 2)) (Fin 0),
          frames = frameCount (int 96000) (2 ^ 10) 960,
          bins = 2 ^ 10 div 2, hopSize = 960, spec_sampleRate = 48000,
          duration = real 96000 / 48000, totalDuration = real 96000 / 48000,
          sliceStart = 0, sliceDuration = 2,
          viewStart = None, viewDuration = None\<rparr>"
    by (rule cpu_silence [OF seg st]) simp_all
  then show ?thesis
    unfolding fc by simp
qed

text \<open>
  C4 (silence), as stated, fails on the frame count: for 96000 samples, \<open>fft_size = 1024\<close>
  and \<open>hop_size = 960\<close> the code computes \<open>floor(94976 / 960) + 1 = 99\<close> frames, not 100
  (a hundredth window would end at sample 96064).
\<close>

theorem silence_frames_counterexample:
  "map_sum id frames (computeSpectrogramCPU (silence 96000 48000) 0 2 960 1024) = Inr 99
   \<and> map_sum id frames (computeSpectrogramCPU (silence 96000 48000) 0 2 960 1024) \<noteq> Inr 100"
  by (simp only: silence_result) simp

text \<open>
  C4, amended: for a mono buffer of 2 seconds of zero samples at 48000 Hz, analysed from
  0 for 2 seconds with \<open>hop_size = 960\<close> and \<open>fft_size = 1024\<close>, the CPU backend returns a
  spectrogram with 99 frames of 512 bins, and every cell of its data is 0 after
  normalization.
\<close>

theorem silence_all_zero:
  "computeSpectrogramCPU (silence 96000 48000) 0 2 960 1024 =
     Inr \<lparr>data = replicate (99 * 512) (Fin 0), frames = 99, bins = 512, hopSize = 960,
          spec_sampleRate = 48000, duration = 2, totalDuration = 2,
          sliceStart = 0, sliceDuration = 2, viewStart = None, viewDuration = None\<rparr>"
  by (rule silence_result)

subsection \<open>Cells of the data array\<close>

text \<open>
  Bounds on the buffers of the CPU backend: as long as the samples are small enough, every
  value stored in a \<^verbatim>\<open>Float32Array\<close> stays finite. A butterfly at most triples the
  largest absolute value in the buffers, each index is written once per stage, and there
  are \<open>k\<close> stages for the size \<open>2^k\<close>.
\<close>

lemma f32_small: "\<bar>x\<bar> < F32_OVERFLOW \<Longrightarrow> f32 (Fin x) = Fin x"
  by (auto simp: f32_def)

lemma fin_le_Fin [simp]: "fin_le M (Fin x) \<longleftrightarrow> \<bar>x\<bar> \<le> M"
  by (simp add: fin_le_def)

lemma fin_leE:
  assumes "fin_le M v"
  obtains x where "v = Fin x" "\<bar>x\<bar> \<le> M"
  using assms by (cases v) (simp_all add: fin_le_def)

lemma fin_le_mono: "fin_le M v \<Longrightarrow> M \<le> N \<Longrightarrow> fin_le N v"
  by (cases v) (simp_all add: fin_le_def)

lemma fold_index_map:
  "n \<le> length d \<Longrightarrow>
   fold (\<lambda>i d. d[i := g i (d ! i)]) [0..<n] d = map (\<lambda>i. g i (d ! i)) [0..<n] @ drop n d"
proof (induction n)
  case 0
  then show ?case by simp
next
  case (Suc n)
  then have n: "n < length d" by simp
  let ?d' = "map (\<lambda>i. g i (d ! i)) [0..<n] @ drop n d"
  have "fold (\<lambda>i d. d[i := g i (d ! i)]) [0..<Suc n] d = ?d'[n := g n (?d' ! n)]"
    using Suc by simp
  also have "?d' ! n = d ! n"
    using n by (simp add: nth_append)
  also have "?d'[n := g n (d ! n)] = map (\<lambda>i. g i (d ! i)) [0..<n] @ (drop n d)[0 := g n (d ! n)]"
    using n by (simp add: list_update_append)
  also have "(drop n d)[0 := g n (d ! n)] = g n (d ! n) # drop (Suc n) d"
    using n by (simp add: Cons_nth_drop_Suc [symmetric])
  also have "map (\<lambda>i. g i (d ! i)) [0..<n] @ g n (d ! n) # drop (Suc n) d
      = map (\<lambda>i. g i (d ! i)) [0..<Suc n] @ drop (Suc n) d"
    by simp
  finally show ?case .
qed

lemma mix_channel_map:
  assumes "length m = n"
  shows "mix_channel s n src m = map (\<lambda>i. f32 (m ! i + Fin (src ! (s + i)))) [0..<n]"
  unfolding mix_channel_def
  using fold_index_map [of n m "\<lambda>i v. f32 (v + Fin (src ! (s + i)))"] assms by simp

lemma mix_channel_bound:
  assumes "length m = n" "\<forall>i<n. fin_le M (m ! i)" "\<forall>i<n. \<bar>src ! (s + i)\<bar> \<le> B"
    and "M + B < F32_OVERFLOW"
  shows "length (mix_channel s n src m) = n
       \<and> (\<forall>i<n. fin_le (M + B) (mix_channel s n src m ! i))"
proof (intro conjI allI impI)
  show "length (mix_channel s n src m) = n"
    by (simp add: mix_channel_map [OF assms(1)])
next
  fix i assume i: "i < n"
  obtain x where x: "m ! i = Fin x" "\<bar>x\<bar> \<le> M"
    using assms(2) i by (auto elim: fin_leE)
  have "\<bar>x + src ! (s + i)\<bar> \<le> M + B"
    using x(2) assms(3) i by (intro order_trans [OF abs_triangle_ineq] add_mono) simp_all
  moreover from this have "f32 (Fin (x + src ! (s + i))) = Fin (x + src ! (s + i))"
    using assms(4) by (intro f32_small) simp
  ultimately show "fin_le (M + B) (mix_channel s n src m ! i)"
    using i x(1) by (simp add: mix_channel_map [OF assms(1)])
qed

lemma mix_all_bound:
  assumes "length m = n" "\<forall>i<n. fin_le M (m ! i)"
    and "\<forall>src\<in>set chans. \<forall>i<n. \<bar>src ! (s + i)\<bar> \<le> B" "0 \<le> B"
    and "M + real (length chans) * B < F32_OVERFLOW"
  shows "length (fold (mix_channel s n) chans m) = n
       \<and> (\<forall>i<n. fin_le (M + real (length chans) * B) (fold (mix_channel s n) chans m ! i))"
  using assms
proof (induction chans arbitrary: m M)
  case Nil
  then show ?case by simp
next
  case (Cons src chans)
  have eq: "M + real (length (src # chans)) * B = (M + B) + real (length chans) * B"
    by (simp add: algebra_simps)
  have "0 \<le> real (length chans) * B" using Cons.prems(4) by simp
  then have small: "M + B < F32_OVERFLOW" using Cons.prems(5) unfolding eq by simp
  have step: "length (mix_channel s n src m) = n
       \<and> (\<forall>i<n. fin_le (M + B) (mix_channel s n src m ! i))"
    using Cons.prems(1,2,3) small by (intro mix_channel_bound) simp_all
  have "length (fold (mix_channel s n) chans (mix_channel s n src m)) = n
       \<and> (\<forall>i<n. fin_le ((M + B) + real (length chans) * B)
                  (fold (mix_channel s n) chans (mix_channel s n src m) ! i))"
    using step Cons.prems(3,4,5) unfolding eq by (intro Cons.IH) simp_all
  then show ?case unfolding eq by simp
qed

lemma downmix_bound:
  assumes "\<forall>src\<in>set (channelData ab). \<forall>i<n. \<bar>src ! (s + i)\<bar> \<le> B" "0 \<le> B"
    and "real (numberOfChannels ab) * B < F32_OVERFLOW" "B < F32_OVERFLOW"
  shows "length (downmix ab s n) = n \<and> (\<forall>i<n. fin_le B (downmix ab s n ! i))"
proof -
  define c where "c = numberOfChannels ab"
  define m where "m = fold (mix_channel s n) (channelData ab) (replicate n (Fin 0))"
  have m: "length m = n \<and> (\<forall>i<n. fin_le (0 + real (length (channelData ab)) * B) (m ! i))"
    unfolding m_def using assms by (intro mix_all_bound) (simp_all add: numberOfChannels_def)
  then have len: "length m = n" and bound: "\<And>i. i < n \<Longrightarrow> fin_le (real c * B) (m ! i)"
    by (simp_all add: c_def numberOfChannels_def)
  have dm: "downmix ab s n = map (\<lambda>i. f32 (m ! i * Fin (1 / max 1 (real c)))) [0..<n]"
    unfolding downmix_def Let_def m_def [symmetric] c_def [symmetric]
    using fold_index_map [of n m "\<lambda>i v. f32 (v * Fin (1 / max 1 (real c)))"] len by simp
  have cell: "fin_le B (f32 (m ! i * Fin (1 / max 1 (real c))))" if i: "i < n" for i
  proof -
    obtain x where x: "m ! i = Fin x" "\<bar>x\<bar> \<le> real c * B"
      using bound [OF i] by (auto elim: fin_leE)
    have "\<bar>x * (1 / max 1 (real c))\<bar> = \<bar>x\<bar> / max 1 (real c)"
      by (simp add: abs_mult)
    also have "\<dots> \<le> real c * B / max 1 (real c)"
      using x(2) by (intro divide_right_mono) simp_all
    also have "\<dots> \<le> B"
    proof (cases "c = 0")
      case True
      then show ?thesis using assms(2) by simp
    next
      case False
      then have "max 1 (real c) = real c" by simp
      then show ?thesis using False by simp
    qed
    finally have le: "\<bar>x * (1 / max 1 (real c))\<bar> \<le> B" .
    then have "f32 (Fin (x * (1 / max 1 (real c)))) = Fin (x * (1 / max 1 (real c)))"
      using assms(4) by (intro f32_small) simp
    then show ?thesis using le x(1) by simp
  qed
  show ?thesis using cell by (simp add: dm)
qed

lemma hann_bound:
  assumes "i < n"
  shows "\<bar>buildHann n ! i\<bar> \<le> 1"
proof -
  define t where "t = cos ((2 * pi * real i) / (real n - 1))"
  have h: "buildHann n ! i = 0.5 * (1 - t)"
    using assms by (simp add: buildHann_def t_def)
  have "- 1 \<le> t" "t \<le> 1"
    unfolding t_def by (rule cos_ge_minus_one, rule cos_le_one)
  then show ?thesis unfolding h by (simp add: abs_le_iff)
qed

lemma bufs_atI:
  assumes "length re = n" "length im = n"
    and "\<And>i. i < n \<Longrightarrow> fin_le (bnd i) (re ! i)" "\<And>i. i < n \<Longrightarrow> fin_le (bnd i) (im ! i)"
  shows "bufs_at n bnd (re, im)"
  using assms by (simp add: bufs_at_def)

lemma bufs_atD:
  assumes "bufs_at n bnd (re, im)"
  shows "length re = n" "length im = n"
    and "\<And>i. i < n \<Longrightarrow> fin_le (bnd i) (re ! i)" "\<And>i. i < n \<Longrightarrow> fin_le (bnd i) (im ! i)"
  using assms by (simp_all add: bufs_at_def)

lemma bufs_at_mono:
  assumes "bufs_at n f b" "\<And>i. i < n \<Longrightarrow> f i \<le> g i"
  shows "bufs_at n g b"
  using assms unfolding bufs_at_def by (auto intro: fin_le_mono)

lemma fill_frame_prefix:
  assumes "length re = n" "length im = n" "j \<le> n"
    and "\<forall>i<length m. fin_le B (m ! i)" "\<forall>i<n. \<bar>hann ! i\<bar> \<le> 1" "0 \<le> B" "B < F32_OVERFLOW"
  shows "\<exists>re' im'. fold (\<lambda>i (re, im).
            let idx = off + i in
            (re[i := f32 ((if idx < length m then m ! idx else Fin 0) * Fin (hann ! i))],
             im[i := Fin 0])) [0..<j] (re, im) = (re', im')
          \<and> length re' = n \<and> length im' = n
          \<and> (\<forall>i<j. fin_le B (re' ! i) \<and> fin_le B (im' ! i))"
  using assms(3)
proof (induction j)
  case 0
  then show ?case using assms(1,2) by simp
next
  case (Suc j)
  then obtain re' im' where
    f: "fold (\<lambda>i (re, im).
            let idx = off + i in
            (re[i := f32 ((if idx < length m then m ! idx else Fin 0) * Fin (hann ! i))],
             im[i := Fin 0])) [0..<j] (re, im) = (re', im')"
    and len: "length re' = n" "length im' = n"
    and old: "\<forall>i<j. fin_le B (re' ! i) \<and> fin_le B (im' ! i)"
    by auto
  have j: "j < n" using Suc.prems by simp
  obtain x where x: "(if off + j < length m then m ! (off + j) else Fin 0) = Fin x" "\<bar>x\<bar> \<le> B"
    using assms(4,6) by (cases "off + j < length m") (auto elim: fin_leE)
  have "\<bar>x * hann ! j\<bar> = \<bar>x\<bar> * \<bar>hann ! j\<bar>" by (simp add: abs_mult)
  also have "\<dots> \<le> B * 1"
    using x(2) assms(5) j by (intro mult_mono) simp_all
  finally have le: "\<bar>x * hann ! j\<bar> \<le> B" by simp
  then have st: "f32 (Fin x * Fin (hann ! j)) = Fin (x * hann ! j)"
    using assms(7) by (simp add: f32_small)
  let ?re = "re'[j := Fin (x * hann ! j)]" and ?im = "im'[j := Fin 0]"
  have "fold (\<lambda>i (re, im).
            let idx = off + i in
            (re[i := f32 ((if idx < length m then m ! idx else Fin 0) * Fin (hann ! i))],
             im[i := Fin 0])) [0..<Suc j] (re, im) = (?re, ?im)"
    using f x(1) st by (simp add: Let_def)
  moreover have "length ?re = n" "length ?im = n" using len by simp_all
  moreover have "\<forall>i<Suc j. fin_le B (?re ! i) \<and> fin_le B (?im ! i)"
    using old le len j assms(6) by (auto simp: nth_list_update less_Suc_eq)
  ultimately show ?case by blast
qed

lemma fill_frame_bound:
  assumes "length re = n" "length im = n"
    and "\<forall>i<length m. fin_le B (m ! i)" "\<forall>i<n. \<bar>hann ! i\<bar> \<le> 1" "0 \<le> B" "B < F32_OVERFLOW"
  shows "bufs_at n (\<lambda>_. B) (fill_frame m hann off n (re, im))"
proof -
  obtain re' im' where "fill_frame m hann off n (re, im) = (re', im')"
    and "length re' = n" "length im' = n" "\<forall>i<n. fin_le B (re' ! i) \<and> fin_le B (im' ! i)"
    using fill_frame_prefix [OF assms(1,2) order_refl assms(3-6), of off]
    unfolding fill_frame_def by blast
  then show ?thesis by (simp add: bufs_at_def)
qed

lemma swap_step_bound:
  assumes "bufs_at n (\<lambda>_. M) b" "i < n" "rv ! i < n"
  shows "bufs_at n (\<lambda>_. M) (swap_step rv i b)"
proof -
  obtain re im where b: "b = (re, im)" by (cases b)
  show ?thesis
    using assms unfolding b bufs_at_def swap_step_def Let_def
    by (auto simp: nth_list_update)
qed

lemma permute_bound:
  assumes "bufs_at n (\<lambda>_. M) b" "\<forall>i<n. rv ! i < n"
  shows "bufs_at n (\<lambda>_. M) (fold (swap_step rv) [0..<n] b)"
  using assms
  by (intro fold_invariant [where Q = "\<lambda>i. i < n" and P = "bufs_at n (\<lambda>_. M)"])
     (simp_all add: swap_step_bound)

lemma rotate_bound:
  fixes x y c s M :: real
  assumes "\<bar>x\<bar> \<le> M" "\<bar>y\<bar> \<le> M" "\<bar>c\<bar> \<le> 1" "\<bar>s\<bar> \<le> 1"
  shows "\<bar>x * c - y * s\<bar> \<le> 2 * M" and "\<bar>x * s + y * c\<bar> \<le> 2 * M"
proof -
  have M: "0 \<le> M" using assms(1) by simp
  have xc: "\<bar>x * c\<bar> \<le> M" and ys: "\<bar>y * s\<bar> \<le> M" and xs: "\<bar>x * s\<bar> \<le> M" and yc: "\<bar>y * c\<bar> \<le> M"
    using mult_mono [OF assms(1) assms(3)] mult_mono [OF assms(2) assms(4)]
      mult_mono [OF assms(1) assms(4)] mult_mono [OF assms(2) assms(3)] M
    by (simp_all add: abs_mult)
  show "\<bar>x * c - y * s\<bar> \<le> 2 * M" using xc ys by (simp add: abs_le_iff)
  show "\<bar>x * s + y * c\<bar> \<le> 2 * M" using xs yc by (simp add: abs_le_iff)
qed

lemma butterfly_bound:
  assumes b: "bufs_at n bnd b"
    and rng: "i + j + half < n" "0 < half"
    and inp: "bnd (i + j) \<le> M" "bnd (i + j + half) \<le> M"
    and tw: "\<bar>cosTable fft ! (j * step)\<bar> \<le> 1" "\<bar>sinTable fft ! (j * step)\<bar> \<le> 1"
    and small: "3 * M < F32_OVERFLOW"
  shows "bufs_at n (bnd(i + j := 3 * M, i + j + half := 3 * M)) (butterfly fft i half step j b)"
proof -
  obtain re im where bb: "b = (re, im)" by (cases b)
  define a where "a = i + j"
  define c where "c = i + j + half"
  have ac: "a \<noteq> c" "a < n" "c < n" using rng by (simp_all add: a_def c_def)
  have c': "a + half = c" by (simp add: a_def c_def)
  note B = bufs_atD [OF b [unfolded bb]]
  obtain ra where ra: "re ! a = Fin ra" "\<bar>ra\<bar> \<le> M"
    using B(3) [OF ac(2)] inp(1) unfolding a_def [symmetric] by (auto elim!: fin_leE)
  obtain ia where ia: "im ! a = Fin ia" "\<bar>ia\<bar> \<le> M"
    using B(4) [OF ac(2)] inp(1) unfolding a_def [symmetric] by (auto elim!: fin_leE)
  obtain rc where rc: "re ! c = Fin rc" "\<bar>rc\<bar> \<le> M"
    using B(3) [OF ac(3)] inp(2) unfolding c_def [symmetric] by (auto elim!: fin_leE)
  obtain ic where ic: "im ! c = Fin ic" "\<bar>ic\<bar> \<le> M"
    using B(4) [OF ac(3)] inp(2) unfolding c_def [symmetric] by (auto elim!: fin_leE)
  define cs where "cs = cosTable fft ! (j * step)"
  define sn where "sn = sinTable fft ! (j * step)"
  define tre where "tre = rc * cs - ic * sn"
  define tim where "tim = rc * sn + ic * cs"
  have t: "\<bar>tre\<bar> \<le> 2 * M" "\<bar>tim\<bar> \<le> 2 * M"
    unfolding tre_def tim_def
    using rotate_bound [OF rc(2) ic(2) tw [folded cs_def sn_def]] by simp_all
  have r1: "\<bar>ra - tre\<bar> \<le> 3 * M" and r2: "\<bar>ra + tre\<bar> \<le> 3 * M"
    and i1: "\<bar>ia - tim\<bar> \<le> 3 * M" and i2: "\<bar>ia + tim\<bar> \<le> 3 * M"
    using ra(2) ia(2) t by (simp_all add: abs_le_iff)
  have st: "f32 (Fin (ra - tre)) = Fin (ra - tre)" "f32 (Fin (ra + tre)) = Fin (ra + tre)"
    "f32 (Fin (ia - tim)) = Fin (ia - tim)" "f32 (Fin (ia + tim)) = Fin (ia + tim)"
    using r1 r2 i1 i2 small by (simp_all add: f32_small)
  have T: "re ! c * Fin cs - im ! c * Fin sn = Fin tre" "re ! c * Fin sn + im ! c * Fin cs = Fin tim"
    by (simp_all add: rc ic tre_def tim_def)
  have res: "butterfly fft i half step j b
      = (re[c := Fin (ra - tre), a := Fin (ra + tre)], im[c := Fin (ia - tim), a := Fin (ia + tim)])"
    unfolding bb butterfly_def Let_def prod.case
      a_def [symmetric] c' cs_def [symmetric] sn_def [symmetric]
    using ac B(1,2) by (simp add: T ra ia st)
  show ?thesis
    unfolding res a_def [symmetric] c'
    using B ac r1 r2 i1 i2 by (intro bufs_atI) (simp_all add: nth_list_update)
qed

lemma butterflies_bound:
  assumes b: "bufs_at n bnd b"
    and rng: "i + 2 * half \<le> n" "0 < half" "j \<le> half"
    and inp: "\<And>idx. i \<le> idx \<Longrightarrow> idx < i + 2 * half \<Longrightarrow> bnd idx \<le> M"
    and tw: "\<And>j. j < half \<Longrightarrow>
               \<bar>cosTable fft ! (j * step)\<bar> \<le> 1 \<and> \<bar>sinTable fft ! (j * step)\<bar> \<le> 1"
    and small: "3 * M < F32_OVERFLOW"
  shows "bufs_at n (\<lambda>idx. if (i \<le> idx \<and> idx < i + j) \<or> (i + half \<le> idx \<and> idx < i + half + j)
                          then 3 * M else bnd idx)
           (fold (butterfly fft i half step) [0..<j] b)"
  using rng(3)
proof (induction j)
  case 0
  have "fold (butterfly fft i half step) [0..<0] b = b" by simp
  then show ?case by (simp only:) (rule bufs_at_mono [OF b], auto)
next
  case (Suc j)
  let ?bnd = "\<lambda>idx. if (i \<le> idx \<and> idx < i + j) \<or> (i + half \<le> idx \<and> idx < i + half + j)
                     then 3 * M else bnd idx"
  have j: "j < half" using Suc.prems by simp
  have IH: "bufs_at n ?bnd (fold (butterfly fft i half step) [0..<j] b)"
    using Suc by simp
  have lo: "?bnd (i + j) \<le> M" using j inp [of "i + j"] by simp
  have hi: "?bnd (i + j + half) \<le> M" using j inp [of "i + j + half"] by simp
  have "bufs_at n (?bnd(i + j := 3 * M, i + j + half := 3 * M))
          (butterfly fft i half step j (fold (butterfly fft i half step) [0..<j] b))"
    using j rng(1,2) tw [OF j] by (intro butterfly_bound [OF IH _ _ lo hi _ _ small]) simp_all
  then have "bufs_at n (?bnd(i + j := 3 * M, i + j + half := 3 * M))
          (fold (butterfly fft i half step) [0..<Suc j] b)"
    by simp
  then show ?case
    by (rule bufs_at_mono) auto
qed

lemma block_loop_bound:
  assumes "bufs_at n (\<lambda>idx. if idx < i then 3 * M else M) b"
    and "len dvd n" "len dvd i" "even len"
    and "\<And>j. j < len div 2 \<Longrightarrow>
           \<bar>cosTable fft ! (j * (fft_size fft div len))\<bar> \<le> 1
         \<and> \<bar>sinTable fft ! (j * (fft_size fft div len))\<bar> \<le> 1"
    and "3 * M < F32_OVERFLOW"
  shows "bufs_at n (\<lambda>_. 3 * M) (block_loop fft n len i b)"
  using assms
proof (induction fft n len i b rule: block_loop.induct)
  case (1 fft n len i b)
  show ?case
  proof (cases "i < n \<and> 0 < len")
    case True
    obtain a c where a: "n = len * a" and c: "i = len * c"
      using "1.prems" by (auto simp: dvd_def)
    have "c < a" using True a c by simp
    then have "Suc c \<le> a" by simp
    then have "len * Suc c \<le> len * a" by (rule mult_le_mono2)
    then have le: "i + len \<le> n" using a c by simp
    define half where "half = drop_bit 1 len"
    have half: "2 * half = len" "0 < half" "half = len div 2"
      using "1.prems"(4) True by (auto simp: half_def drop_bit_eq_div)
    let ?inner = "fold (butterfly fft i half (fft_size fft div len)) [0..<half] b"
    have inner0: "bufs_at n (\<lambda>idx. if (i \<le> idx \<and> idx < i + half) \<or> (i + half \<le> idx \<and> idx < i + half + half)
                          then 3 * M else (if idx < i then 3 * M else M)) ?inner"
      using le half "1.prems"(5,6)
      by (intro butterflies_bound [OF "1.prems"(1), where M = M]) simp_all
    have inner: "bufs_at n (\<lambda>idx. if idx < i + len then 3 * M else M) ?inner"
      by (rule bufs_at_mono [OF inner0]) (use half(1) in auto)
    have "len dvd i + len" using "1.prems" by simp
    then have "bufs_at n (\<lambda>_. 3 * M) (block_loop fft n len (i + len) ?inner)"
      using "1.IH" [OF True, folded half_def] inner "1.prems" by simp
    moreover have "block_loop fft n len i b = block_loop fft n len (i + len) ?inner"
      using True unfolding half_def by (subst block_loop.simps) simp
    ultimately show ?thesis by simp
  next
    case False
    have eq: "block_loop fft n len i b = b"
      using False by (subst block_loop.simps) auto
    have "len \<noteq> 0 \<or> n = 0" using "1.prems"(2) by auto
    then have "n \<le> i" using False by auto
    then show ?thesis
      unfolding eq using "1.prems"(1) by (intro bufs_at_mono [OF "1.prems"(1)]) simp
  qed
qed

lemma twiddle_bound:
  assumes "createFFT sz = Inr fft" "idx < sz div 2"
  shows "\<bar>cosTable fft ! idx\<bar> \<le> 1 \<and> \<bar>sinTable fft ! idx\<bar> \<le> 1"
proof -
  have "cosTable fft = map (\<lambda>i. cos (- 2 * pi * real i / real sz)) [0..<sz div 2]"
    "sinTable fft = map (\<lambda>i. sin (- 2 * pi * real i / real sz)) [0..<sz div 2]"
    using assms(1) by (auto simp: createFFT_def Let_def split: if_splits)
  then show ?thesis using assms(2) by simp
qed

lemma stage_loop_bound:
  assumes "bufs_at n (\<lambda>_. M) b" "n = 2 ^ k" "len = 2 ^ s" "1 \<le> s" "fft_size fft = n"
    and "\<forall>idx < n div 2. \<bar>cosTable fft ! idx\<bar> \<le> 1 \<and> \<bar>sinTable fft ! idx\<bar> \<le> 1"
    and "3 ^ (Suc k - s) * M < F32_OVERFLOW" "0 \<le> M"
  shows "bufs_at n (\<lambda>_. 3 ^ (Suc k - s) * M) (stage_loop fft n len b)"
  using assms
proof (induction fft n len b arbitrary: s M rule: stage_loop.induct)
  case (1 fft n len b)
  show ?case
  proof (cases "len \<le> n \<and> 0 < len")
    case True
    then have "(2::nat) ^ s \<le> 2 ^ k" using "1.prems" by simp
    then have sk: "s \<le> k" by simp
    then have dvd: "len dvd n" using "1.prems" by (simp add: le_imp_power_dvd)
    obtain t where t: "s = Suc t" using "1.prems"(4) by (cases s) simp_all
    have ev: "even len" using "1.prems"(3) t by simp
    have halfv: "len div 2 = 2 ^ t" using "1.prems"(3) t by simp
    have stepv: "n div len = 2 ^ (k - s)"
      using "1.prems"(2,3) sk by (simp add: power_diff)
    have nhalf: "n div 2 = 2 ^ t * 2 ^ (k - s)"
    proof -
      have "k = Suc (t + (k - s))" using sk t by simp
      then have "n = 2 * (2 ^ t * 2 ^ (k - s))"
        using "1.prems"(2) by (metis power_Suc power_add)
      then show ?thesis by simp
    qed
    have tw: "\<bar>cosTable fft ! (j * (fft_size fft div len))\<bar> \<le> 1
            \<and> \<bar>sinTable fft ! (j * (fft_size fft div len))\<bar> \<le> 1" if "j < len div 2" for j
    proof -
      have "j * 2 ^ (k - s) < 2 ^ t * 2 ^ (k - s)"
        using that unfolding halfv by simp
      then have "j * (fft_size fft div len) < n div 2"
        unfolding "1.prems"(5) stepv nhalf .
      then show ?thesis using "1.prems"(6) by blast
    qed
    have pw: "Suc k - s = Suc (k - s)" using sk by simp
    have "3 * M \<le> 3 ^ (Suc k - s) * M"
    proof -
      have "(3::real) ^ 1 \<le> 3 ^ (Suc k - s)"
        by (rule power_increasing) (simp_all add: pw)
      then show ?thesis using "1.prems"(8) by (intro mult_right_mono) simp_all
    qed
    then have small: "3 * M < F32_OVERFLOW" using "1.prems"(7) by simp
    have "bufs_at n (\<lambda>idx. if idx < 0 then 3 * M else M) b"
      using "1.prems"(1) by simp
    then have blk: "bufs_at n (\<lambda>_. 3 * M) (block_loop fft n len 0 b)"
      using dvd ev tw small by (intro block_loop_bound) simp_all
    have nxt: "push_bit 1 len = 2 ^ Suc s" using "1.prems"(3) by (simp add: push_bit_eq_mult)
    have "1 \<le> Suc s" by simp
    moreover have "3 ^ (Suc k - Suc s) * (3 * M) < F32_OVERFLOW"
      using "1.prems"(7) unfolding pw by simp
    moreover have "0 \<le> 3 * M" using "1.prems"(8) by simp
    ultimately have "bufs_at n (\<lambda>_. 3 ^ (Suc k - Suc s) * (3 * M))
        (stage_loop fft n (push_bit 1 len) (block_loop fft n len 0 b))"
      using "1.IH" [OF True blk "1.prems"(2) nxt _ "1.prems"(5,6)] by blast
    moreover have "stage_loop fft n len b = stage_loop fft n (push_bit 1 len) (block_loop fft n len 0 b)"
      using True by (subst stage_loop.simps) simp
    moreover have "3 ^ (Suc k - Suc s) * (3 * M) = 3 ^ (Suc k - s) * M"
      unfolding pw by simp
    ultimately show ?thesis by (simp only:)
  next
    case False
    have eq: "stage_loop fft n len b = b"
      using False by (subst stage_loop.simps) auto
    have "\<not> (2::nat) ^ s \<le> 2 ^ k" using False "1.prems"(2,3) by simp
    then have "k < s" by simp
    then have "Suc k - s = 0" by simp
    then show ?thesis unfolding eq using "1.prems"(1) by simp
  qed
qed

lemma transform_bound:
  assumes "createFFT (2 ^ k) = Inr fft" "bufs_at (2 ^ k) (\<lambda>_. M) b" "0 \<le> M"
    and "3 ^ k * M < F32_OVERFLOW"
  shows "bufs_at (2 ^ k) (\<lambda>_. 3 ^ k * M) (transform fft b)"
proof -
  have n: "fft_size fft = 2 ^ k" using assms(1) by (rule fft_size_createFFT)
  have "bufs_at (2 ^ k) (\<lambda>_. M) (fold (swap_step (rev_table fft)) [0..<2 ^ k] b)"
    using rev_table_bound [OF assms(1)] by (intro permute_bound assms(2)) simp
  then have "bufs_at (2 ^ k) (\<lambda>_. 3 ^ (Suc k - 1) * M)
      (stage_loop fft (2 ^ k) 2 (fold (swap_step (rev_table fft)) [0..<2 ^ k] b))"
    using n twiddle_bound [OF assms(1)] assms(3,4)
    by (intro stage_loop_bound [where k = k and s = 1]) simp_all
  then show ?thesis by (simp add: transform_def n Let_def)
qed

lemma F32_OVERFLOW_pos: "1 < F32_OVERFLOW"
  by (simp add: F32_OVERFLOW_def)

lemma f32_mag: "0 \<le> m \<Longrightarrow> is_mag (f32 (Fin m))"
  using F32_OVERFLOW_pos by (simp add: f32_def is_mag_def)

lemma write_mags_inv:
  assumes "bufs_at n (\<lambda>_. M) b" "bns \<le> n" "\<forall>v\<in>set dat. is_mag v" "0 < p"
  shows "\<exists>dat' p'. write_mags base bns b (dat, Fin p) = (dat', Fin p') \<and> 0 < p'
           \<and> (\<forall>v\<in>set dat'. is_mag v)"
proof -
  obtain re im where b: "b = (re, im)" by (cases b)
  note B = bufs_atD [OF assms(1) [unfolded b]]
  let ?P = "\<lambda>st. \<exists>dat' p'. st = (dat', Fin p') \<and> 0 < p' \<and> (\<forall>v\<in>set dat'. is_mag v)"
  have "?P (fold (\<lambda>b (dat, peak).
       let mag = js_hypot (re ! b) (im ! b) in
       (dat[base + b := f32 mag], if peak < mag then mag else peak)) [0..<bns] (dat, Fin p))"
  proof (rule fold_invariant [where Q = "\<lambda>x. x < bns"])
    show "\<And>x. x \<in> set [0..<bns] \<Longrightarrow> x < bns" by simp
    show "?P (dat, Fin p)" using assms(3,4) by simp
  next
    fix x st
    assume x: "x < bns" and st: "?P st"
    then obtain d q where d: "st = (d, Fin q)" "0 < q" "\<forall>v\<in>set d. is_mag v" by blast
    have xn: "x < n" using x assms(2) by simp
    obtain a where a: "re ! x = Fin a" using B(3) [OF xn] by (auto elim: fin_leE)
    obtain c where c: "im ! x = Fin c" using B(4) [OF xn] by (auto elim: fin_leE)
    define m where "m = sqrt (a\<^sup>2 + c\<^sup>2)"
    have m: "js_hypot (re ! x) (im ! x) = Fin m" "0 \<le> m"
      by (simp_all add: a c js_hypot_def m_def)
    have "\<forall>v\<in>set (d[base + x := f32 (Fin m)]). is_mag v"
      using d(3) f32_mag [OF m(2)] set_update_subset_insert [of d "base + x" "f32 (Fin m)"]
      by auto
    moreover have "\<exists>p'. (if Fin q < Fin m then Fin m else Fin q) = Fin p' \<and> 0 < p'"
      using d(2) by auto
    ultimately show "?P ((\<lambda>(dat, peak).
       let mag = js_hypot (re ! x) (im ! x) in
       (dat[base + x := f32 mag], if peak < mag then mag else peak)) st)"
      unfolding d(1) prod.case Let_def m(1) by blast
  qed
  then show ?thesis by (simp add: write_mags_def b)
qed

lemma frame_step_inv:
  assumes fft: "createFFT (2 ^ k) = Inr fft"
    and m: "\<forall>i<length m. fin_le B (m ! i)" "0 \<le> B" "3 ^ k * B < F32_OVERFLOW"
    and st: "length re = 2 ^ k" "length im = 2 ^ k" "\<forall>v\<in>set dat. is_mag v" "0 < p"
  shows "\<exists>re' im' dat' p'.
           frame_step m (buildHann (2 ^ k)) fft hop (2 ^ k) (2 ^ k div 2) frame ((re, im), dat, Fin p)
             = ((re', im'), dat', Fin p')
           \<and> length re' = 2 ^ k \<and> length im' = 2 ^ k \<and> (\<forall>v\<in>set dat'. is_mag v) \<and> 0 < p'"
proof -
  have "1 * B \<le> 3 ^ k * B" using m(2) by (intro mult_right_mono) simp_all
  then have small: "B < F32_OVERFLOW" using m(3) by simp
  define b1 where "b1 = fill_frame m (buildHann (2 ^ k)) (nat (int frame * hop)) (2 ^ k) (re, im)"
  define b2 where "b2 = transform fft b1"
  have "bufs_at (2 ^ k) (\<lambda>_. B) b1"
    unfolding b1_def using st(1,2) m(1,2) small hann_bound
    by (intro fill_frame_bound) simp_all
  then have b2: "bufs_at (2 ^ k) (\<lambda>_. 3 ^ k * B) b2"
    unfolding b2_def using m(2,3) by (intro transform_bound [OF fft]) simp_all
  obtain re' im' where r: "b2 = (re', im')" by (cases b2)
  have len: "length re' = 2 ^ k" "length im' = 2 ^ k"
    using bufs_atD(1,2) [OF b2 [unfolded r]] by simp_all
  have "(2::nat) ^ k div 2 \<le> 2 ^ k" by simp
  then obtain dat' p' where
    w: "write_mags (frame * (2 ^ k div 2)) (2 ^ k div 2) b2 (dat, Fin p) = (dat', Fin p')"
      "0 < p'" "\<forall>v\<in>set dat'. is_mag v"
    using write_mags_inv [OF b2 _ st(3,4)] by blast
  have "frame_step m (buildHann (2 ^ k)) fft hop (2 ^ k) (2 ^ k div 2) frame ((re, im), dat, Fin p)
      = ((re', im'), dat', Fin p')"
    unfolding frame_step_def Let_def prod.case b1_def [symmetric] b2_def [symmetric]
    using w(1) r by simp
  then show ?thesis using len w(2,3) by blast
qed

lemma frame_loop_inv:
  assumes fft: "createFFT (2 ^ k) = Inr fft"
    and m: "\<forall>i<length m. fin_le B (m ! i)" "0 \<le> B" "3 ^ k * B < F32_OVERFLOW"
  shows "\<exists>b dat' p'.
           fold (frame_step m (buildHann (2 ^ k)) fft hop (2 ^ k) (2 ^ k div 2)) fs
             ((replicate (2 ^ k) (Fin 0), replicate (2 ^ k) (Fin 0)), replicate d (Fin 0), Fin (1 / 10 ^ 9))
             = (b, dat', Fin p')
           \<and> (\<forall>v\<in>set dat'. is_mag v) \<and> 0 < p'"
proof -
  let ?P = "\<lambda>st. \<exists>(re :: jsnum list) (im :: jsnum list) dat p.
                st = ((re, im), dat, Fin p) \<and> length re = 2 ^ k \<and> length im = 2 ^ k
                \<and> (\<forall>v\<in>set dat. is_mag v) \<and> 0 < p"
  have "?P (fold (frame_step m (buildHann (2 ^ k)) fft hop (2 ^ k) (2 ^ k div 2)) fs
             ((replicate (2 ^ k) (Fin 0), replicate (2 ^ k) (Fin 0)), replicate d (Fin 0), Fin (1 / 10 ^ 9)))"
  proof (rule fold_invariant [where Q = "\<lambda>_. True"])
    show "?P ((replicate (2 ^ k) (Fin 0), replicate (2 ^ k) (Fin 0)), replicate d (Fin 0), Fin (1 / 10 ^ 9))"
      by (rule exI [of _ "replicate (2 ^ k) (Fin 0)"], rule exI [of _ "replicate (2 ^ k) (Fin 0)"],
          rule exI [of _ "replicate d (Fin 0)"], rule exI [of _ "1 / 10 ^ 9"])
         (simp add: is_mag_def)
  next
    fix x st
    assume "?P st"
    then obtain re im dat p where s: "st = ((re, im), dat, Fin p)" "length re = 2 ^ k"
      "length im = 2 ^ k" "\<forall>v\<in>set dat. is_mag v" "0 < p"
      by blast
    show "?P (frame_step m (buildHann (2 ^ k)) fft hop (2 ^ k) (2 ^ k div 2) x st)"
      unfolding s(1) using frame_step_inv [OF fft m s(2-5), of hop x] by blast
  qed simp
  then show ?thesis by blast
qed

lemma js_clamp_unit: "js_clamp (Fin z) (Fin 0) (Fin 1) = Fin (clamp z 0 1)"
  by (simp add: js_clamp_def js_max_def js_min_def clamp_def min_def max_def)

lemma clamp_unit: "0 \<le> clamp z 0 1 \<and> clamp z 0 1 \<le> 1"
  by (simp add: clamp_def)

lemma normalize_cell_range:
  assumes "is_mag v" "0 < p"
  shows "\<exists>y. f32 (normalize_cell (Fin p) v) = Fin y \<and> 0 \<le> y \<and> y \<le> 1"
proof (cases v)
  case (Fin x)
  then have x: "0 \<le> x" using assms(1) by (simp add: is_mag_def)
  have "0 \<le> x / p" using x assms(2) by simp
  then have pos: "0 < x / p + 1 / 10 ^ 12" by (simp add: add_nonneg_pos)
  define z where "z = (20 * log 10 (x / p + 1 / 10 ^ 12) - minDb) / spanDb"
  have "Fin x / Fin p + Fin (1 / 10 ^ 12) = Fin (x / p + 1 / 10 ^ 12)"
    using assms(2) by simp
  then have "normalize_cell (Fin p) v
      = js_clamp ((Fin 20 * js_log10 (Fin (x / p + 1 / 10 ^ 12)) - Fin minDb) / Fin spanDb) (Fin 0) (Fin 1)"
    unfolding normalize_cell_def Let_def Fin by (simp only:)
  also have "js_log10 (Fin (x / p + 1 / 10 ^ 12)) = Fin (log 10 (x / p + 1 / 10 ^ 12))"
    using pos by (simp add: js_log10_def)
  also have "(Fin 20 * Fin (log 10 (x / p + 1 / 10 ^ 12)) - Fin minDb) / Fin spanDb = Fin z"
    by (simp add: z_def spanDb_def minDb_def)
  finally have n: "normalize_cell (Fin p) v = Fin (clamp z 0 1)"
    by (simp only: js_clamp_unit)
  have "\<bar>clamp z 0 1\<bar> < F32_OVERFLOW"
    using clamp_unit [of z] F32_OVERFLOW_pos by simp
  then have "f32 (normalize_cell (Fin p) v) = Fin (clamp z 0 1)"
    unfolding n by (rule f32_small)
  then show ?thesis using clamp_unit [of z] by blast
next
  case PInf
  have "f32 (normalize_cell (Fin p) PInf) = Fin 1"
    using assms(2) F32_OVERFLOW_pos
    by (simp add: normalize_cell_def Let_def js_log10_def minus_jsnum_def minDb_def spanDb_def
          js_clamp_def js_max_def js_min_def f32_def)
  then show ?thesis unfolding PInf by simp
next
  case NInf
  then show ?thesis using assms(1) by (simp add: is_mag_def)
next
  case NaN
  then show ?thesis using assms(1) by (simp add: is_mag_def)
qed

lemma normalize_range:
  assumes "\<forall>v\<in>set dat. is_mag v" "0 < p" "i < length dat"
  shows "Fin 0 \<le> normalizeData (Fin p) dat ! i \<and> normalizeData (Fin p) dat ! i \<le> Fin 1"
proof -
  have "is_mag (dat ! i)" using assms(1,3) by simp
  then obtain y where "f32 (normalize_cell (Fin p) (dat ! i)) = Fin y" "0 \<le> y" "y \<le> 1"
    using normalize_cell_range [OF _ assms(2)] by blast
  then show ?thesis using assms(3) by (simp add: normalize_map)
qed

lemma peak_of_pos:
  assumes "\<forall>v\<in>set outData. \<exists>x. v = Fin x \<and> 0 \<le> x"
  shows "\<exists>p. peak_of outData = Fin p \<and> 0 < p"
  unfolding peak_of_def
proof (rule fold_invariant [where Q = "\<lambda>i. i < length outData"])
  show "\<exists>p. Fin (1 / 10 ^ 9) = Fin p \<and> 0 < p"
    by (rule exI [of _ "1 / 10 ^ 9"]) simp
next
  fix i pk
  assume i: "i < length outData" and "\<exists>p. pk = Fin p \<and> 0 < p"
  then obtain p where p: "pk = Fin p" "0 < p" by blast
  obtain x where x: "outData ! i = Fin x" "0 \<le> x" using assms i by (meson nth_mem)
  show "\<exists>p. (if pk < outData ! i then outData ! i else pk) = Fin p \<and> 0 < p"
    unfolding p(1) x(1) using p(2) by auto
qed simp

lemma cpu_unfold:
  assumes "computeSpectrogramCPU ab start dur hop fftSize = Inr s"
  shows "\<exists>fft b dat peak. createFFT fftSize = Inr fft
     \<and> fold (frame_step (downmix ab (nat (startSample_of ab start)) (nat (segmentLen_of ab start dur)))
             (buildHann fftSize) fft hop fftSize (fftSize div 2))
             [0..<nat (frameCount (segmentLen_of ab start dur) fftSize hop)]
             ((replicate fftSize (Fin 0), replicate fftSize (Fin 0)),
              replicate (nat (frameCount (segmentLen_of ab start dur) fftSize hop) * (fftSize div 2)) (Fin 0),
              Fin (1 / 10 ^ 9)) = (b, dat, peak)
     \<and> data s = normalizeData peak dat"
  using assms unfolding computeSpectrogramCPU_def Let_def
  by (auto split: if_splits sum.splits prod.splits)

lemma gpu_unfold:
  assumes "computeSpectrogramWebGPU device ab start dur hop fftSize = Inr (Some s)"
  shows "\<exists>g frameData n out m. device = Some g \<and> g frameData n = Some out
     \<and> data s = normalizeData (peak_of (map out [0..<m])) (map out [0..<m])"
proof -
  let ?frms = "max 1 (frameCount (segmentLen_of ab start dur) fftSize hop)"
  from assms obtain g out where g: "device = Some g"
    and out: "g (frameData_of ab (startSample_of ab start) (endSample_of ab start dur) hop fftSize
                 (nat ?frms)) (nat ?frms) = Some out"
    and s: "data s = normalizeData (peak_of (map out [0..<nat ?frms * (fftSize div 2)]))
                        (map out [0..<nat ?frms * (fftSize div 2)])"
    unfolding computeSpectrogramWebGPU_def Let_def
    by (auto split: option.splits if_splits)
  then show ?thesis by blast
qed

lemma segment_in_buffer:
  assumes "i < nat (segmentLen_of ab start dur)"
  shows "nat (startSample_of ab start) + i < buf_length ab"
  using assms by (simp add: segmentLen_of_def startSample_of_def endSample_of_def)

lemma half_range: "(2::real) ^ 127 < F32_OVERFLOW"
  by (simp add: F32_OVERFLOW_def)

lemma cpu_cells:
  assumes samples: "\<forall>c\<in>set (channelData ab). length c = buf_length ab \<and> (\<forall>x\<in>set c. \<bar>x\<bar> \<le> B)"
    and small: "real (numberOfChannels ab) * B < F32_OVERFLOW" "3 ^ k * B < F32_OVERFLOW"
    and run: "computeSpectrogramCPU ab start dur hop (2 ^ k) = Inr s"
    and i: "i < length (data s)"
  shows "Fin 0 \<le> data s ! i \<and> data s ! i \<le> Fin 1"
proof -
  define B' where "B' = max B 0"
  define ss where "ss = nat (startSample_of ab start)"
  define sl where "sl = nat (segmentLen_of ab start dur)"
  have B': "0 \<le> B'" "B \<le> B'" by (simp_all add: B'_def)
  have s1: "real (numberOfChannels ab) * B' < F32_OVERFLOW"
    using small(1) F32_OVERFLOW_pos by (cases "B \<le> 0") (simp_all add: B'_def max_def)
  have s2: "3 ^ k * B' < F32_OVERFLOW"
    using small(2) F32_OVERFLOW_pos by (cases "B \<le> 0") (simp_all add: B'_def max_def)
  have "1 * B' \<le> 3 ^ k * B'" using B'(1) by (intro mult_right_mono) simp_all
  then have s3: "B' < F32_OVERFLOW" using s2 by simp
  have "\<forall>src\<in>set (channelData ab). \<forall>j<sl. \<bar>src ! (ss + j)\<bar> \<le> B'"
  proof (intro ballI allI impI)
    fix src j assume src: "src \<in> set (channelData ab)" and j: "j < sl"
    have "ss + j < length src"
      using segment_in_buffer [of j ab start dur] j samples src by (simp add: ss_def sl_def)
    then have "src ! (ss + j) \<in> set src" by simp
    then show "\<bar>src ! (ss + j)\<bar> \<le> B'" using samples src B'(2) by fastforce
  qed
  then have dm: "\<forall>j<length (downmix ab ss sl). fin_le B' (downmix ab ss sl ! j)"
    using downmix_bound [OF _ B'(1) s1 s3, of sl ss] by simp
  obtain fft b dat peak where fft: "createFFT (2 ^ k) = Inr fft"
    and loop: "fold (frame_step (downmix ab ss sl) (buildHann (2 ^ k)) fft hop (2 ^ k) (2 ^ k div 2))
             [0..<nat (frameCount (segmentLen_of ab start dur) (2 ^ k) hop)]
             ((replicate (2 ^ k) (Fin 0), replicate (2 ^ k) (Fin 0)),
              replicate (nat (frameCount (segmentLen_of ab start dur) (2 ^ k) hop) * (2 ^ k div 2)) (Fin 0),
              Fin (1 / 10 ^ 9)) = (b, dat, peak)"
    and d: "data s = normalizeData peak dat"
    using cpu_unfold [OF run] unfolding ss_def sl_def by blast
  obtain p where p: "peak = Fin p" "0 < p" and mags: "\<forall>v\<in>set dat. is_mag v"
    using frame_loop_inv [OF fft dm B'(1) s2, of hop
        "[0..<nat (frameCount (segmentLen_of ab start dur) (2 ^ k) hop)]"
        "nat (frameCount (segmentLen_of ab start dur) (2 ^ k) hop) * (2 ^ k div 2)"]
    unfolding loop by auto
  have "i < length dat" using i d by (simp add: length_normalize)
  then show ?thesis unfolding d p(1) by (rule normalize_range [OF mags p(2)])
qed

lemma gpu_cells:
  assumes dev: "\<forall>g frameData n out j. device = Some g \<and> g frameData n = Some out
                  \<longrightarrow> (\<exists>x. out j = Fin x \<and> 0 \<le> x)"
    and run: "computeSpectrogramWebGPU device ab start dur hop fftSize = Inr (Some s)"
    and i: "i < length (data s)"
  shows "Fin 0 \<le> data s ! i \<and> data s ! i \<le> Fin 1"
proof -
  obtain g frameData n out m where g: "device = Some g" "g frameData n = Some out"
    and d: "data s = normalizeData (peak_of (map out [0..<m])) (map out [0..<m])"
    using gpu_unfold [OF run] by blast
  have out: "\<exists>x. out j = Fin x \<and> 0 \<le> x" for j using dev g by blast
  then have fin: "\<forall>v\<in>set (map out [0..<m]). \<exists>x. v = Fin x \<and> 0 \<le> x" by auto
  then have mags: "\<forall>v\<in>set (map out [0..<m]). is_mag v" by (auto simp: is_mag_def)
  obtain p where p: "peak_of (map out [0..<m]) = Fin p" "0 < p"
    using peak_of_pos [OF fin] by blast
  have "i < length (map out [0..<m])" using i d by (simp add: length_normalize)
  then show ?thesis unfolding d p(1) by (rule normalize_range [OF mags p(2)])
qed

text \<open>The CPU backend on four samples of \<open>3 * 2^126\<close>, with \<open>fft_size = 4\<close>.\<close>

lemma hann4: "buildHann 4 = [0, 3 / 4, 3 / 4, 0]"
proof -
  have a: "cos (2 * pi / 3) = - 1 / 2" using cos_120 by simp
  have "cos (4 * pi / 3) = cos (2 * pi - 2 * pi / 3)" by simp
  also have "\<dots> = cos (2 * pi / 3)" by (simp only: cos_2pi_minus)
  finally have b: "cos (4 * pi / 3) = - 1 / 2" using a by simp
  have u: "[0..<4] = [0, 1, 2, 3]" by (simp add: upt_rec)
  show ?thesis
    unfolding buildHann_def u by (simp add: a b)
qed

lemma levels_of_4: "levels_of 4 = 2"
  using levels_of_pow2 [of 2] by simp

lemma fft4: "createFFT 4 = Inr \<lparr>fft_size = 4, rev_table = [0, 2, 1, 3],
    sinTable = [0, - 1], cosTable = [1, 0]\<rparr>"
proof -
  have u: "[0..<4] = [0, 1, 2, 3]" "[0..<2] = [0, 1]" by (simp_all add: upt_rec)
  have p: "(4::nat) AND (4 - 1) = 0" using pow2_and_pred [of 2] by simp
  have s: "sin (- 2 * pi / 4) = - 1" "cos (- 2 * pi / 4) = 0"
    by simp_all
  have r: "bitrev_loop 2 0 0 = 0" "bitrev_loop 2 1 0 = 2" "bitrev_loop 2 2 0 = 1" "bitrev_loop 2 3 0 = 3"
    by code_simp+
  show ?thesis
    unfolding createFFT_def Let_def levels_of_4 using p r by (simp add: u)
qed

lemma downmix_loud: "downmix (steady LOUD 4 48000) 0 4 = [Fin LOUD, Fin LOUD, Fin LOUD, Fin LOUD]"
proof -
  have u: "[0..<4] = [0, 1, 2, 3]" by (simp add: upt_rec)
  have r: "replicate 4 x = [x, x, x, x]" for x :: "'a" by (simp add: numeral_eq_Suc)
  show ?thesis
    unfolding downmix_def mix_channel_def Let_def u r
    by (simp add: steady_def numberOfChannels_def f32_def F32_OVERFLOW_def LOUD_def r)
qed

lemma fill_loud:
  "fill_frame [Fin LOUD, Fin LOUD, Fin LOUD, Fin LOUD] [0, 3 / 4, 3 / 4, 0] 0 4
     ([Fin 0, Fin 0, Fin 0, Fin 0], [Fin 0, Fin 0, Fin 0, Fin 0])
   = ([Fin 0, Fin (3 * LOUD / 4), Fin (3 * LOUD / 4), Fin 0], [Fin 0, Fin 0, Fin 0, Fin 0])"
proof -
  have u: "[0..<4] = [0, 1, 2, 3]" by (simp add: upt_rec)
  show ?thesis
    unfolding fill_frame_def Let_def u
    by (simp add: f32_def F32_OVERFLOW_def LOUD_def)
qed

lemma transform_loud:
  "transform \<lparr>fft_size = 4, rev_table = [0, 2, 1, 3], sinTable = [0, - 1], cosTable = [1, 0]\<rparr>
     ([Fin 0, Fin (3 * LOUD / 4), Fin (3 * LOUD / 4), Fin 0], [Fin 0, Fin 0, Fin 0, Fin 0])
   = ([PInf, Fin (- (3 * LOUD / 4)), Fin 0, Fin (- (3 * LOUD / 4))],
      [Fin 0, Fin (- (3 * LOUD / 4)), Fin 0, Fin (3 * LOUD / 4)])"
proof -
  have u: "[0..<4] = [0, 1, 2, 3]" "[0..<2] = [0, 1]" by (simp_all add: upt_rec)
  show ?thesis
    unfolding transform_def Let_def
    by (simp add: u swap_step_def stage_loop.simps block_loop.simps butterfly_def Let_def
          drop_bit_eq_div push_bit_eq_mult f32_def F32_OVERFLOW_def LOUD_def)
qed

lemma sqrt2_bound: "sqrt 2 < 3 / 2"
proof -
  have "sqrt 2 < sqrt ((3 / 2)\<^sup>2)"
    unfolding real_sqrt_less_iff by (simp add: power2_eq_square)
  then show ?thesis by simp
qed

lemma hypot_loud: "sqrt ((3 * LOUD / 4)\<^sup>2 + (3 * LOUD / 4)\<^sup>2) = sqrt 2 * (3 * LOUD / 4)"
proof -
  have "(3 * LOUD / 4)\<^sup>2 + (3 * LOUD / 4)\<^sup>2 = 2 * (3 * LOUD / 4)\<^sup>2" by simp
  then have "sqrt ((3 * LOUD / 4)\<^sup>2 + (3 * LOUD / 4)\<^sup>2) = sqrt 2 * sqrt ((3 * LOUD / 4)\<^sup>2)"
    by (simp only: real_sqrt_mult)
  also have "sqrt ((3 * LOUD / 4)\<^sup>2) = 3 * LOUD / 4"
    by (simp add: LOUD_def)
  finally show ?thesis .
qed

lemma js_hypot_Fin: "js_hypot (Fin a) (Fin b) = Fin (sqrt (a\<^sup>2 + b\<^sup>2))"
  by (simp add: js_hypot_def)

lemma mag_loud_fits: "f32 (Fin (sqrt 2 * (3 * LOUD / 4))) = Fin (sqrt 2 * (3 * LOUD / 4))"
proof -
  have "sqrt 2 * (3 * LOUD / 4) < 3 / 2 * (3 * LOUD / 4)"
    using sqrt2_bound by (intro mult_strict_right_mono) (simp_all add: LOUD_def)
  also have "\<dots> < F32_OVERFLOW" by (simp add: LOUD_def F32_OVERFLOW_def)
  finally have "sqrt 2 * (3 * LOUD / 4) < F32_OVERFLOW" .
  moreover have "0 \<le> sqrt 2 * (3 * LOUD / 4)" by (simp add: LOUD_def)
  ultimately have "\<bar>sqrt 2 * (3 * LOUD / 4)\<bar> < F32_OVERFLOW" by (simp only: abs_of_nonneg)
  then show ?thesis by (rule f32_small)
qed

lemma write_mags_loud:
  "write_mags 0 2 ([PInf, Fin (- (3 * LOUD / 4)), Fin 0, Fin (- (3 * LOUD / 4))],
                  [Fin 0, Fin (- (3 * LOUD / 4)), Fin 0, Fin (3 * LOUD / 4)])
     ([Fin 0, Fin 0], Fin (1 / 10 ^ 9))
   = ([PInf, Fin (sqrt 2 * (3 * LOUD / 4))], PInf)"
proof -
  have u: "[0..<2] = [0, 1]" by (simp add: upt_rec)
  have h0: "js_hypot PInf (Fin 0) = PInf" by (simp add: js_hypot_def)
  have h1: "js_hypot (Fin (- (3 * LOUD / 4))) (Fin (- (3 * LOUD / 4))) = Fin (sqrt 2 * (3 * LOUD / 4))"
    unfolding js_hypot_Fin power2_minus hypot_loud ..
  have f0: "f32 PInf = PInf" by (simp add: f32_def)
  have "write_mags 0 2 ([PInf, Fin (- (3 * LOUD / 4)), Fin 0, Fin (- (3 * LOUD / 4))],
                  [Fin 0, Fin (- (3 * LOUD / 4)), Fin 0, Fin (3 * LOUD / 4)])
     ([Fin 0, Fin 0], Fin (1 / 10 ^ 9))
     = ([Fin 0, Fin 0][0 := f32 (js_hypot PInf (Fin 0)),
          1 := f32 (js_hypot (Fin (- (3 * LOUD / 4))) (Fin (- (3 * LOUD / 4))))],
        if (if Fin (1 / 10 ^ 9) < js_hypot PInf (Fin 0) then js_hypot PInf (Fin 0) else Fin (1 / 10 ^ 9))
              < js_hypot (Fin (- (3 * LOUD / 4))) (Fin (- (3 * LOUD / 4)))
        then js_hypot (Fin (- (3 * LOUD / 4))) (Fin (- (3 * LOUD / 4)))
        else (if Fin (1 / 10 ^ 9) < js_hypot PInf (Fin 0) then js_hypot PInf (Fin 0) else Fin (1 / 10 ^ 9)))"
    unfolding write_mags_def u by (simp add: Let_def)
  also have "\<dots> = ([PInf, Fin (sqrt 2 * (3 * LOUD / 4))], PInf)"
    unfolding h0 h1 f0 mag_loud_fits by simp
  finally show ?thesis .
qed

lemma normalize_inf_inf: "f32 (normalize_cell PInf PInf) = NaN"
  by (simp add: normalize_cell_def Let_def js_log10_def minus_jsnum_def js_clamp_def js_max_def
        js_min_def f32_def)

lemma normalize_fin_inf: "f32 (normalize_cell PInf (Fin m)) = Fin 0"
proof -
  have "Fin m / PInf + Fin (1 / 10 ^ 12) = Fin (1 / 10 ^ 12)"
    by simp
  then have "normalize_cell PInf (Fin m)
      = js_clamp ((Fin 20 * js_log10 (Fin (1 / 10 ^ 12)) - Fin minDb) / Fin spanDb) (Fin 0) (Fin 1)"
    unfolding normalize_cell_def Let_def by (simp only:)
  also have "js_log10 (Fin (1 / 10 ^ 12)) = Fin (- 12)"
    unfolding js_log10_def jsnum.case log10_tiny by simp
  also have "js_clamp ((Fin 20 * Fin (- 12) - Fin minDb) / Fin spanDb) (Fin 0) (Fin 1) = Fin 0"
    by (simp add: minDb_def spanDb_def js_clamp_def js_max_def js_min_def)
  finally show ?thesis by simp
qed

lemma cpu_loud:
  "computeSpectrogramCPU (steady LOUD 4 48000) 0 1 1 4 =
     Inr \<lparr>data = [NaN, Fin 0], frames = 1, bins = 2, hopSize = 1,
          spec_sampleRate = 48000, duration = 1 / 12000, totalDuration = 1 / 12000,
          sliceStart = 0, sliceDuration = 1, viewStart = None, viewDuration = None\<rparr>"
proof -
  have seg: "segmentLen_of (steady LOUD 4 48000) 0 1 = 4" "startSample_of (steady LOUD 4 48000) 0 = 0"
    by (simp_all add: segmentLen_of_def startSample_of_def endSample_of_def steady_def)
  have fc: "frameCount 4 4 1 = 1" by (simp add: frameCount_def)
  have r: "replicate 4 (Fin 0) = [Fin 0, Fin 0, Fin 0, Fin 0]" "replicate 2 (Fin 0) = [Fin 0, Fin 0]"
    by (simp_all add: numeral_eq_Suc)
  have step: "frame_step [Fin LOUD, Fin LOUD, Fin LOUD, Fin LOUD] [0, 3 / 4, 3 / 4, 0]
       \<lparr>fft_size = 4, rev_table = [0, 2, 1, 3], sinTable = [0, - 1], cosTable = [1, 0]\<rparr> 1 4 2 0
       (([Fin 0, Fin 0, Fin 0, Fin 0], [Fin 0, Fin 0, Fin 0, Fin 0]), [Fin 0, Fin 0], Fin (1 / 10 ^ 9))
     = (([PInf, Fin (- (3 * LOUD / 4)), Fin 0, Fin (- (3 * LOUD / 4))],
         [Fin 0, Fin (- (3 * LOUD / 4)), Fin 0, Fin (3 * LOUD / 4)]),
        [PInf, Fin (sqrt 2 * (3 * LOUD / 4))], PInf)"
  proof -
    have z: "nat (int 0 * 1) = 0" "(0::nat) * 2 = 0" by simp_all
    show ?thesis
      unfolding frame_step_def Let_def prod.case z fill_loud transform_loud write_mags_loud ..
  qed
  have norm: "normalizeData PInf [PInf, Fin (sqrt 2 * (3 * LOUD / 4))] = [NaN, Fin 0]"
    unfolding normalize_map by (simp add: normalize_inf_inf normalize_fin_inf)
  have a: "nat (0::int) = 0" "nat (4::int) = 4" "nat (1::int) = 1" "(4::nat) div 2 = 2"
    "(1::nat) * 2 = 2" "[0..<1] = [0::nat]"
    by simp_all
  have short: "\<not> (4::int) < int 4" and pos: "\<not> (1::int) \<le> 0" by simp_all
  have ab: "buf_duration (steady LOUD 4 48000) = 1 / 12000" "sampleRate (steady LOUD 4 48000) = 48000"
    by (simp_all add: steady_def buf_duration_def)
  have loop: "fold (frame_step [Fin LOUD, Fin LOUD, Fin LOUD, Fin LOUD] [0, 3 / 4, 3 / 4, 0]
       \<lparr>fft_size = 4, rev_table = [0, 2, 1, 3], sinTable = [0, - 1], cosTable = [1, 0]\<rparr> 1 4 2) [0]
       (([Fin 0, Fin 0, Fin 0, Fin 0], [Fin 0, Fin 0, Fin 0, Fin 0]), [Fin 0, Fin 0], Fin (1 / 10 ^ 9))
     = (([PInf, Fin (- (3 * LOUD / 4)), Fin 0, Fin (- (3 * LOUD / 4))],
         [Fin 0, Fin (- (3 * LOUD / 4)), Fin 0, Fin (3 * LOUD / 4)]),
        [PInf, Fin (sqrt 2 * (3 * LOUD / 4))], PInf)"
    by (simp only: fold_simps comp_apply id_apply step)
  show ?thesis
    unfolding computeSpectrogramCPU_def Let_def seg
    by (simp only: short pos if_False fc a downmix_loud hann4 fft4 sum.case r loop prod.case norm ab)
qed

lemma steady_simps:
  "sampleRate (steady a n sr) = sr" "buf_length (steady a n sr) = n"
  "channelData (steady a n sr) = [replicate n a]" "numberOfChannels (steady a n sr) = 1"
  by (simp_all add: steady_def numberOfChannels_def)

lemma segmentLen_steady:
  assumes "0 < sr" "0 \<le> d"
  shows "segmentLen_of (steady a n sr) 0 d = min (int n) \<lceil>d * sr\<rceil>"
proof -
  have "0 \<le> d * sr" using assms by simp
  then have "0 \<le> \<lceil>d * sr\<rceil>" by linarith
  then show ?thesis
    by (simp add: segmentLen_of_def startSample_of_def endSample_of_def steady_simps)
qed

text \<open>
  C1 (cells in the unit interval), as stated, fails: the buffers are \<^verbatim>\<open>Float32Array\<close>s,
  and loud finite samples overflow them. For a mono buffer of four samples \<open>3 * 2^126\<close>
  at 48000 Hz, analysed with \<open>hop_size = 1\<close> and \<open>fft_size = 4\<close>, the window is
  \<open>[0, 3/4, 3/4, 0]\<close>; the last stage of the FFT stores \<open>9 * 2^125\<close> into
  \<^verbatim>\<open>re[0]\<close>, which becomes \<^verbatim>\<open>Infinity\<close>; so do the magnitude of bin 0 and \<^verbatim>\<open>peak\<close>;
  the normalization divides \<^verbatim>\<open>Infinity\<close> by \<^verbatim>\<open>Infinity\<close>, and \<^verbatim>\<open>clamp\<close> returns the
  NaN it is given. The backend succeeds, and cell 0 of its data is NaN, for which
  \<^verbatim>\<open>0 <= data[0] && data[0] <= 1\<close> is false.
\<close>

theorem loud_cell_counterexample:
  "map_sum id data (computeSpectrogramCPU (steady LOUD 4 48000) 0 1 1 4) = Inr [NaN, Fin 0]
   \<and> \<not> (Fin 0 \<le> [NaN, Fin 0] ! 0 \<and> [NaN, Fin 0] ! 0 \<le> Fin 1)"
  by (simp only: cpu_loud) simp

text \<open>
  C1, amended: let the hop be positive and the FFT size \<open>2^k\<close> with \<open>k > 0\<close>; let every
  channel have the length of the buffer and every sample an absolute value of at most
  \<open>B\<close>, where \<open>numberOfChannels * B\<close> and \<open>3^k * B\<close> are at most \<open>2^127\<close>, half the range
  of single precision, so that no store into a \<^verbatim>\<open>Float32Array\<close> overflows, with room
  for the rounding that the model leaves out; and let every value that the compute
  device returns be a finite number that is not negative. Then, whenever the CPU
  backend, the WebGPU backend or the dispatcher \<^verbatim>\<open>computeSpectrogram\<close> succeeds, every
  cell of the returned \<^verbatim>\<open>data\<close> array is a number from 0 to 1. For \<open>fft_size = 1024\<close>
  the bound is \<open>B < 2.8e33\<close>; audio samples lie between \<open>- 1\<close> and 1.
\<close>

theorem cells_in_unit_interval:
  assumes "0 < hop" and "0 < k"
    and "\<forall>c\<in>set (channelData ab). length c = buf_length ab \<and> (\<forall>x\<in>set c. \<bar>x\<bar> \<le> B)"
    and "real (numberOfChannels ab) * B \<le> 2 ^ 127" and "3 ^ k * B \<le> 2 ^ 127"
    and "\<forall>g frameData n out j. device = Some g \<and> g frameData n = Some out
           \<longrightarrow> (\<exists>x. out j = Fin x \<and> 0 \<le> x)"
    and "computeSpectrogramCPU ab start dur hop (2 ^ k) = Inr s
       \<or> computeSpectrogramWebGPU device ab start dur hop (2 ^ k) = Inr (Some s)
       \<or> computeSpectrogram device ab start dur hop (2 ^ k) preferGPU = Inr s"
  shows "\<forall>i < length (data s). Fin 0 \<le> data s ! i \<and> data s ! i \<le> Fin 1"
proof -
  have small: "real (numberOfChannels ab) * B < F32_OVERFLOW" "3 ^ k * B < F32_OVERFLOW"
    using assms(4,5) half_range by simp_all
  have "computeSpectrogramCPU ab start dur hop (2 ^ k) = Inr s
      \<or> computeSpectrogramWebGPU device ab start dur hop (2 ^ k) = Inr (Some s)"
    using assms(7) dispatcher_cases by blast
  then show ?thesis
    using cpu_cells [OF assms(3) small] gpu_cells [OF assms(6)] by blast
qed

theorem cells_in_unit_interval_witness:
  "(\<exists>s. computeSpectrogramCPU (steady 1 2048 1024) 0 2 512 1024 = Inr s
        \<and> length (data s) = 1536
        \<and> Fin 0 \<le> data s ! 0 \<and> data s ! 0 \<le> Fin 1)
   \<and> (\<exists>s. computeSpectrogramWebGPU (Some ramp_device) (steady 1 2048 1024) 0 2 512 1024 = Inr (Some s)
        \<and> length (data s) = 1536
        \<and> Fin 0 \<le> data s ! 1535 \<and> data s ! 1535 \<le> Fin 1)"
proof -
  have seg: "segmentLen_of (steady 1 2048 1024) 0 2 = 2048"
    by (simp add: segmentLen_steady)
  have fc: "frameCount 2048 1024 512 = 3"
    by (simp add: frameCount_def)
  have hop: "(0::int) < 512" and k: "(0::nat) < 10" by simp_all
  have samples: "\<forall>c\<in>set (channelData (steady 1 2048 1024)).
      length c = buf_length (steady 1 2048 1024) \<and> (\<forall>x\<in>set c. \<bar>x\<bar> \<le> 1)"
    by (simp add: steady_simps)
  have small: "real (numberOfChannels (steady 1 2048 1024)) * 1 \<le> 2 ^ 127"
    "3 ^ 10 * (1::real) \<le> 2 ^ 127"
    by (simp_all add: steady_simps)
  have dev: "\<forall>g frameData n out j. Some ramp_device = Some g \<and> g frameData n = Some out
           \<longrightarrow> (\<exists>x. out j = Fin x \<and> 0 \<le> x)"
    by (auto simp: ramp_device_def)
  have "int (2 ^ 10) \<le> segmentLen_of (steady 1 2048 1024) 0 2"
    by (simp add: seg)
  then obtain s where s: "computeSpectrogramCPU (steady 1 2048 1024) 0 2 512 (2 ^ 10) = Inr s"
    using cpu_succeeds [of 10 "steady 1 2048 1024" 0 2 512] by auto
  then have s': "computeSpectrogramCPU (steady 1 2048 1024) 0 2 512 1024 = Inr s"
    by simp
  have ls: "length (data s) = 1536"
    using cpu_data(1) [OF s'] by (auto simp: seg fc length_normalize)
  have "\<forall>i < length (data s). Fin 0 \<le> data s ! i \<and> data s ! i \<le> Fin 1"
    using cells_in_unit_interval [where start = 0 and dur = 2 and s = s, OF hop k samples small dev] s
    by simp
  then have "Fin 0 \<le> data s ! 0 \<and> data s ! 0 \<le> Fin 1"
    using ls by simp
  with s' ls have cpu: "\<exists>s. computeSpectrogramCPU (steady 1 2048 1024) 0 2 512 1024 = Inr s
        \<and> length (data s) = 1536 \<and> Fin 0 \<le> data s ! 0 \<and> data s ! 0 \<le> Fin 1"
    by blast
  obtain g where g: "computeSpectrogramWebGPU (Some ramp_device) (steady 1 2048 1024) 0 2 512 1024 = Inr (Some g)"
    using gpu_succeeds_ramp [of "steady 1 2048 1024" 0 2 512] seg by auto
  then have g': "computeSpectrogramWebGPU (Some ramp_device) (steady 1 2048 1024) 0 2 512 (2 ^ 10) = Inr (Some g)"
    by simp
  have lg: "length (data g) = 1536"
    using gpu_data(1) [OF g] by (auto simp: seg fc length_normalize)
  have "\<forall>i < length (data g). Fin 0 \<le> data g ! i \<and> data g ! i \<le> Fin 1"
    using cells_in_unit_interval [where start = 0 and dur = 2 and s = g, OF hop k samples small dev] g'
    by simp
  then have "Fin 0 \<le> data g ! 1535 \<and> data g ! 1535 \<le> Fin 1"
    using lg by simp
  with g lg have "\<exists>s. computeSpectrogramWebGPU (Some ramp_device) (steady 1 2048 1024) 0 2 512 1024 = Inr (Some s)
        \<and> length (data s) = 1536 \<and> Fin 0 \<le> data s ! 1535 \<and> data s ! 1535 \<le> Fin 1"
    by blast
  with cpu show ?thesis by blast
qed

section \<open>Properties of the tile manager and the renderer\<close>

lemma resize_fields [simp]:
  "spectrogram (resizeSpectrumCanvas e st) = spectrogram st"
  "hiResSpec (resizeSpectrumCanvas e st) = hiResSpec st"
  "hiResRequestId (resizeSpectrumCanvas e st) = hiResRequestId st"
  "spectrogramRequestId (resizeSpectrumCanvas e st) = spectrogramRequestId st"
  "hiResPending (resizeSpectrumCanvas e st) = hiResPending st"
  "lastHiResRequestedAt (resizeSpectrumCanvas e st) = lastHiResRequestedAt st"
  by (simp_all add: resizeSpectrumCanvas_def Let_def)

lemma clearRect_fields [simp]:
  "spectrogram (clearRect st) = spectrogram st"
  "hiResSpec (clearRect st) = hiResSpec st"
  "hiResRequestId (clearRect st) = hiResRequestId st"
  "spectrogramRequestId (clearRect st) = spectrogramRequestId st"
  "hiResPending (clearRect st) = hiResPending st"
  "lastHiResRequestedAt (clearRect st) = lastHiResRequestedAt st"
  "canvasWidth (clearRect st) = canvasWidth st"
  "canvasHeight (clearRect st) = canvasHeight st"
  "canvasPixels (clearRect st) = replicate (canvasWidth st * canvasHeight st * 4) 0"
  by (simp_all add: clearRect_def)

lemma clearSpectrumCanvas_fields [simp]:
  "spectrogram (clearSpectrumCanvas e st) = spectrogram st"
  "hiResSpec (clearSpectrumCanvas e st) = hiResSpec st"
  "hiResRequestId (clearSpectrumCanvas e st) = hiResRequestId st"
  "spectrogramRequestId (clearSpectrumCanvas e st) = spectrogramRequestId st"
  by (simp_all add: clearSpectrumCanvas_def Let_def)

lemma resize_dims:
  assumes "hasCanvas e"
  shows "0 < canvasWidth (resizeSpectrumCanvas e st)" "0 < canvasHeight (resizeSpectrumCanvas e st)"
  using assms by (auto simp: resizeSpectrumCanvas_def Let_def)

lemma hiResMatches_cong:
  "hiResSpec st' = hiResSpec st \<Longrightarrow> hiResMatches st' a b c = hiResMatches st a b c"
  by (simp add: hiResMatches_def)

lemma shouldUseHiRes_cong:
  "spectrogram st' = spectrogram st \<Longrightarrow> shouldUseHiRes e p st' = shouldUseHiRes e p st"
  by (simp add: shouldUseHiRes_def)

lemma selectSpec_cong:
  "spectrogram st' = spectrogram st \<Longrightarrow> hiResSpec st' = hiResSpec st \<Longrightarrow>
   selectSpec e a b p st' full = selectSpec e a b p st full"
  by (simp add: selectSpec_def hiResMatches_cong [of st' st] shouldUseHiRes_cong [of st' st])

text \<open>What starting a hi-res run changes.\<close>

lemma buildHiRes_begin_fields:
  assumes "buildHiResSpectrogram_begin e a b p st = (st', req)"
  shows "spectrogram st' = spectrogram st \<and> hiResSpec st' = hiResSpec st
     \<and> spectrogramRequestId st' = spectrogramRequestId st
     \<and> hiResRequestId st \<le> hiResRequestId st'
     \<and> canvasWidth st' = canvasWidth st \<and> canvasHeight st' = canvasHeight st
     \<and> canvasPixels st' = canvasPixels st"
  using assms
  by (auto simp: buildHiResSpectrogram_begin_def Let_def split: if_splits option.splits)

lemma maybeRequestHiRes_fields:
  assumes "maybeRequestHiRes e a b p st = (st', req)"
  shows "spectrogram st' = spectrogram st \<and> hiResSpec st' = hiResSpec st
     \<and> spectrogramRequestId st' = spectrogramRequestId st
     \<and> hiResRequestId st \<le> hiResRequestId st'
     \<and> canvasWidth st' = canvasWidth st \<and> canvasHeight st' = canvasHeight st
     \<and> canvasPixels st' = canvasPixels st"
proof -
  from assms have "(st', req) = (st, None) \<or>
    (\<exists>a' b'. buildHiResSpectrogram_begin e a' b' p st = (st', req))"
    unfolding maybeRequestHiRes_def Let_def
    by (auto split: if_splits option.splits)
  then show ?thesis
  proof
    assume "(st', req) = (st, None)"
    then show ?thesis by simp
  next
    assume "\<exists>a' b'. buildHiResSpectrogram_begin e a' b' p st = (st', req)"
    then show ?thesis using buildHiRes_begin_fields by blast
  qed
qed

lemma length_HEAT_LUT: "length HEAT_LUT = 256"
  by (simp add: HEAT_LUT_def)

lemma data_at_not_NaN: "data_at dat k \<noteq> NaN"
  by (simp add: data_at_def)

lemma lut_index_range: "v \<noteq> NaN \<Longrightarrow> 0 \<le> lut_index v \<and> lut_index v \<le> 255"
  by (cases v) (simp_all add: lut_index_def)

lemma lut_at_clipped:
  assumes "v \<noteq> NaN"
  shows "\<exists>c. lut_at (lut_index v) = Some c"
proof -
  have "0 \<le> lut_index v \<and> lut_index v < int (length HEAT_LUT)"
    using lut_index_range [OF assms] by (simp add: length_HEAT_LUT)
  then have "lut_at (lut_index v) = Some (HEAT_LUT ! nat (lut_index v))"
    unfolding lut_at_def by (simp only: simp_thms if_True)
  then show ?thesis ..
qed

lemma draw_pixel_ok: "\<exists>d. draw_pixel spec vs ppsDev binScale width x y dest = Inr d"
proof -
  let ?k = "lut_index (data_at (data spec)
     (\<lfloor>clamp (of_int (Math_round ((vs + real x / ppsDev - sliceStart spec)
          / (of_int (hopSize spec) / spec_sampleRate spec)))) 0 (of_int (frames spec - 1))\<rfloor>
        * int (bins spec)
      + (int (bins spec) - 1 - min (int (bins spec) - 1) (Math_round (real y * binScale)))))"
  obtain c where "lut_at ?k = Some c"
    using lut_at_clipped [OF data_at_not_NaN] by blast
  then show ?thesis
    unfolding draw_pixel_def Let_def by (simp split: prod.splits)
qed


lemma for_each_ok:
  assumes "\<And>x s. \<exists>s'. f x s = Inr s'"
  shows "\<exists>s'. for_each f xs s = Inr s'"
proof (induction xs arbitrary: s)
  case Nil
  show ?case by simp
next
  case (Cons x xs)
  obtain s1 where "f x s = Inr s1" using assms by blast
  then show ?case using Cons.IH [of s1] by simp
qed

lemma renderSpectrogram_ok:
  assumes "0 < width" "0 < height"
  shows "\<exists>r. renderSpectrogram e spec vStart vDuration ppsCss width height = Inr r"
proof -
  have loop: "\<exists>img. for_each (\<lambda>x. for_each (draw_pixel spec vs ppsDev binScale width x) [0..<height])
        xs dest = Inr img" for vs ppsDev binScale xs dest
    by (intro for_each_ok draw_pixel_ok)
  define dpr where "dpr = (if devicePixelRatio e = 0 then 1 else devicePixelRatio e)"
  define vd where "vd = min (if vDuration > 0 then vDuration else totalDuration spec) (totalDuration spec)"
  define vs where "vs = clamp vStart 0 (max 0 (totalDuration spec - vd))"
  define binScale where "binScale = (if bins spec > 1
                        then (real (bins spec) - 1) / max 1 (real height - 1) else 0)"
  obtain img where img: "for_each (\<lambda>x. for_each (draw_pixel spec vs (ppsCss * dpr) binScale width x) [0..<height])
        [0..<nat (min (int width) (Math_round (vd * (ppsCss * dpr))))] (replicate (width * height * 4) 0) = Inr img"
    using loop by blast
  have "renderSpectrogram e spec vStart vDuration ppsCss width height = Inr (img, vs, vd)"
    unfolding renderSpectrogram_def Let_def
    using assms img unfolding dpr_def vd_def vs_def binScale_def
    by simp
  then show ?thesis ..
qed

lemma draw_request_step:
  "\<exists>st3 req. (if shouldUseHiRes e p st2 then maybeRequestHiRes e a b p st2 else (st2, None)) = (st3, req)
     \<and> spectrogram st3 = spectrogram st2 \<and> hiResSpec st3 = hiResSpec st2
     \<and> spectrogramRequestId st3 = spectrogramRequestId st2
     \<and> hiResRequestId st2 \<le> hiResRequestId st3
     \<and> canvasWidth st3 = canvasWidth st2 \<and> canvasHeight st3 = canvasHeight st2
     \<and> canvasPixels st3 = canvasPixels st2"
proof (cases "shouldUseHiRes e p st2")
  case True
  obtain st3 req where r: "maybeRequestHiRes e a b p st2 = (st3, req)"
    by (cases "maybeRequestHiRes e a b p st2")
  from maybeRequestHiRes_fields [OF r] r True show ?thesis by simp
next
  case False
  then show ?thesis by simp
qed

lemma drawSpectrogram_total:
  "\<exists>st' req. drawSpectrogram e vs vd st = Inr (st', req)
     \<and> spectrogram st' = spectrogram st \<and> hiResSpec st' = hiResSpec st
     \<and> spectrogramRequestId st' = spectrogramRequestId st
     \<and> hiResRequestId st \<le> hiResRequestId st'"
proof -
  let ?st2 = "clearRect (resizeSpectrumCanvas e st)"
  consider (nocanvas) "\<not> hasCanvas e"
    | (noctx) "hasCanvas e" "\<not> hasCtx e"
    | (nospec) "hasCanvas e" "hasCtx e" "spectrogram st = None"
    | (empty) full where "hasCanvas e" "hasCtx e" "spectrogram st = Some full"
        "frames full = 0 \<or> bins full = 0"
    | (nopps) full where "hasCanvas e" "hasCtx e" "spectrogram st = Some full"
        "\<not> (frames full = 0 \<or> bins full = 0)" "currentPixelsPerSecond e = None"
    | (zeropps) full where "hasCanvas e" "hasCtx e" "spectrogram st = Some full"
        "\<not> (frames full = 0 \<or> bins full = 0)" "currentPixelsPerSecond e = Some 0"
    | (paint) full p where "hasCanvas e" "hasCtx e" "spectrogram st = Some full"
        "\<not> (frames full = 0 \<or> bins full = 0)" "currentPixelsPerSecond e = Some p" "p \<noteq> 0"
    by (cases "spectrogram st"; cases "currentPixelsPerSecond e") auto
  then show ?thesis
  proof cases
    case nocanvas
    then show ?thesis by (simp add: drawSpectrogram_def)
  next
    case noctx
    then show ?thesis by (simp add: drawSpectrogram_def Let_def)
  next
    case nospec
    then show ?thesis by (simp add: drawSpectrogram_def Let_def)
  next
    case empty
    then show ?thesis by (simp add: drawSpectrogram_def Let_def)
  next
    case nopps
    then show ?thesis by (simp add: drawSpectrogram_def Let_def)
  next
    case zeropps
    then show ?thesis by (simp add: drawSpectrogram_def Let_def)
  next
    case paint
    obtain st3 req where
      r: "(if shouldUseHiRes e p ?st2 then maybeRequestHiRes e vs vd p ?st2 else (?st2, None)) = (st3, req)"
      and f: "spectrogram st3 = spectrogram ?st2" "hiResSpec st3 = hiResSpec ?st2"
        "spectrogramRequestId st3 = spectrogramRequestId ?st2"
        "hiResRequestId ?st2 \<le> hiResRequestId st3"
        "canvasWidth st3 = canvasWidth ?st2" "canvasHeight st3 = canvasHeight ?st2"
      using draw_request_step [of e p ?st2 vs vd] by blast
    have dims: "0 < canvasWidth st3" "0 < canvasHeight st3"
      using f resize_dims [OF paint(1), of st] by simp_all
    obtain img vs' vd' where
      img: "renderSpectrogram e (selectSpec e vs vd p st3 full) vs vd p (canvasWidth st3) (canvasHeight st3)
              = Inr (img, vs', vd')"
      using renderSpectrogram_ok [OF dims] by (metis prod_cases3)
    have "drawSpectrogram e vs vd st =
        Inr (st3\<lparr>specViewStart := vs', specViewDuration := vd', canvasPixels := img\<rparr>, req)"
      unfolding drawSpectrogram_def Let_def
      using paint by (simp add: r img)
    then show ?thesis using f by simp
  qed
qed

lemma draw_early:
  "\<not> hasCanvas e \<Longrightarrow> drawSpectrogram e vs vd st = Inr (st, None)"
  "hasCanvas e \<Longrightarrow> \<not> hasCtx e \<Longrightarrow> drawSpectrogram e vs vd st = Inr (resizeSpectrumCanvas e st, None)"
  "hasCanvas e \<Longrightarrow> hasCtx e \<Longrightarrow>
     spectrogram st = None
     \<or> (\<exists>full. spectrogram st = Some full \<and> (frames full = 0 \<or> bins full = 0))
     \<or> currentPixelsPerSecond e = None \<or> currentPixelsPerSecond e = Some 0 \<Longrightarrow>
     drawSpectrogram e vs vd st = Inr (clearRect (resizeSpectrumCanvas e st), None)"
  by (auto simp: drawSpectrogram_def Let_def split: option.splits)

text \<open>
  C9. \<^verbatim>\<open>drawSpectrogram\<close> never throws: for every environment, view and state it returns
  normally (the colour table is always read inside its 256 entries, and the image is
  never empty). When the canvas and its 2D context exist and the active spectrogram is
  null or empty (\<open>frames = 0\<close> or \<open>bins = 0\<close>), it clears the whole canvas, starts no
  builder run and returns without painting: every byte of the pixel buffer is 0.
\<close>

theorem renderer_never_fails:
  "(\<exists>st' req. drawSpectrogram e vs vd st = Inr (st', req))
   \<and> (hasCanvas e \<and> hasCtx e
        \<and> (spectrogram st = None
             \<or> (\<exists>full. spectrogram st = Some full \<and> (frames full = 0 \<or> bins full = 0)))
      \<longrightarrow> drawSpectrogram e vs vd st = Inr (clearRect (resizeSpectrumCanvas e st), None)
        \<and> canvasPixels (clearRect (resizeSpectrumCanvas e st))
            = replicate (canvasWidth (resizeSpectrumCanvas e st)
                          * canvasHeight (resizeSpectrumCanvas e st) * 4) 0)"
proof (intro conjI impI)
  show "\<exists>st' req. drawSpectrogram e vs vd st = Inr (st', req)"
    using drawSpectrogram_total [of e vs vd st] by blast
next
  assume h: "hasCanvas e \<and> hasCtx e
        \<and> (spectrogram st = None
             \<or> (\<exists>full. spectrogram st = Some full \<and> (frames full = 0 \<or> bins full = 0)))"
  then show "drawSpectrogram e vs vd st = Inr (clearRect (resizeSpectrumCanvas e st), None)"
    by (auto simp: drawSpectrogram_def Let_def)
  show "canvasPixels (clearRect (resizeSpectrumCanvas e st))
            = replicate (canvasWidth (resizeSpectrumCanvas e st)
                          * canvasHeight (resizeSpectrumCanvas e st) * 4) 0"
    by simp
qed

subsection \<open>Tiles and the view they were built for\<close>

lemma no_view_no_match:
  assumes "hiResSpec st = Some s" "viewStart s = None \<or> viewDuration s = None"
  shows "\<not> hiResMatches st a b c"
  using assms by (auto simp: hiResMatches_def Let_def)

text \<open>
  C10. A spectrogram from the CPU backend has neither \<^verbatim>\<open>viewStart\<close> nor
  \<^verbatim>\<open>viewDuration\<close>, which the WebGPU backend sets to the requested start and duration.
  Held as the cached hi-res tile it makes \<^verbatim>\<open>hiResMatches\<close> false for all arguments, so
  the renderer never selects it: it paints the full-track spectrogram instead.
\<close>

theorem cpu_tile_never_matches:
  "(computeSpectrogramCPU ab start dur hop fftSize = Inr s
      \<longrightarrow> viewStart s = None \<and> viewDuration s = None
        \<and> (hiResSpec st = Some s
             \<longrightarrow> \<not> hiResMatches st a b c \<and> selectSpec e a b p st full = full))
   \<and> (computeSpectrogramWebGPU device ab' start' dur' hop' fftSize' = Inr (Some g)
      \<longrightarrow> viewStart g = Some start' \<and> viewDuration g = Some dur')"
proof (intro conjI impI)
  assume cpu: "computeSpectrogramCPU ab start dur hop fftSize = Inr s"
  show v: "viewStart s = None" "viewDuration s = None"
    using cpu_data(5,6) [OF cpu] by simp_all
  assume h: "hiResSpec st = Some s"
  show m: "\<not> hiResMatches st a b c"
    using h v by (intro no_view_no_match) auto
  show "selectSpec e a b p st full = full"
    using no_view_no_match [OF h, of a b] v by (simp add: selectSpec_def Let_def)
next
  assume gpu: "computeSpectrogramWebGPU device ab' start' dur' hop' fftSize' = Inr (Some g)"
  show "viewStart g = Some start'" "viewDuration g = Some dur'"
    using gpu_data(5,6) [OF gpu] by simp_all
qed


lemma covering_tile_matches:
  assumes "hiResSpec st = Some tile"
    and "viewStart tile = Some ts" "\<bar>ts - vs\<bar> < 1 / 60"
    and "viewDuration tile = Some td" "\<bar>td - vd\<bar> < 1 / 60"
    and "hopSize tile = hop"
  shows "hiResMatches st vs vd hop"
  using assms by (simp add: hiResMatches_def Let_def)

lemma match_no_request:
  assumes "hiResMatches st vs vd (hopTarget_of (getSampleRate e) p)"
  shows "maybeRequestHiRes e vs vd p st = (st, None)"
    and "buildHiResSpectrogram_begin e vs vd p st = (st, None)"
  using assms
  by (simp_all add: maybeRequestHiRes_def buildHiResSpectrogram_begin_def Let_def split: option.splits)

text \<open>
  C7. When the cached hi-res tile carries a window within 1/60 s of the current view
  start and duration and was built with the current hop target, neither
  \<^verbatim>\<open>maybeRequestHiRes\<close> nor \<^verbatim>\<open>buildHiResSpectrogram\<close> starts a run or changes the
  state, a repaint of that view starts no run and keeps the tile, and, where a hi-res
  tile is warranted (\<^verbatim>\<open>shouldUseHiRes\<close>), the renderer selects the cached tile: the
  repaint is the image of the tile.
\<close>

theorem cached_tile_reused:
  assumes "hiResSpec st = Some tile"
    and "viewStart tile = Some ts" and "\<bar>ts - vs\<bar> < 1 / 60"
    and "viewDuration tile = Some td" and "\<bar>td - vd\<bar> < 1 / 60"
    and "hopSize tile = hopTarget_of (getSampleRate e) p"
  shows "maybeRequestHiRes e vs vd p st = (st, None)
     \<and> buildHiResSpectrogram_begin e vs vd p st = (st, None)
     \<and> (shouldUseHiRes e p st \<longrightarrow> selectSpec e vs vd p st full = tile)
     \<and> (currentPixelsPerSecond e = Some p \<longrightarrow>
          (\<exists>st'. drawSpectrogram e vs vd st = Inr (st', None)
                 \<and> hiResSpec st' = Some tile \<and> hiResRequestId st' = hiResRequestId st
                 \<and> hiResPending st' = hiResPending st))
     \<and> (hasCanvas e \<and> hasCtx e \<and> spectrogram st = Some full
          \<and> frames full \<noteq> 0 \<and> bins full \<noteq> 0
          \<and> currentPixelsPerSecond e = Some p \<and> p \<noteq> 0 \<and> shouldUseHiRes e p st
        \<longrightarrow> drawSpectrogram e vs vd st =
             (case renderSpectrogram e tile vs vd p
                     (canvasWidth (resizeSpectrumCanvas e st)) (canvasHeight (resizeSpectrumCanvas e st)) of
                Inl err \<Rightarrow> Inl err
              | Inr (img, vs', vd') \<Rightarrow>
                  Inr ((clearRect (resizeSpectrumCanvas e st))
                         \<lparr>specViewStart := vs', specViewDuration := vd', canvasPixels := img\<rparr>, None)))"
proof -
  let ?hop = "hopTarget_of (getSampleRate e) p"
  let ?st2 = "clearRect (resizeSpectrumCanvas e st)"
  have m: "hiResMatches st vs vd ?hop"
    using assms by (rule covering_tile_matches)
  have m2: "hiResMatches ?st2 vs vd ?hop"
    using m by (simp add: hiResMatches_cong [of ?st2 st])
  have req: "maybeRequestHiRes e vs vd p st = (st, None)"
    "buildHiResSpectrogram_begin e vs vd p st = (st, None)"
    using match_no_request [OF m] by simp_all
  have req2: "maybeRequestHiRes e vs vd p ?st2 = (?st2, None)"
    using match_no_request(1) [OF m2] .
  have sel: "selectSpec e vs vd p st full = tile" if "shouldUseHiRes e p st"
    using that m assms(1) by (simp add: selectSpec_def Let_def)
  have paint: "drawSpectrogram e vs vd st =
             (case renderSpectrogram e tile vs vd p
                     (canvasWidth (resizeSpectrumCanvas e st)) (canvasHeight (resizeSpectrumCanvas e st)) of
                Inl err \<Rightarrow> Inl err
              | Inr (img, vs', vd') \<Rightarrow>
                  Inr (?st2\<lparr>specViewStart := vs', specViewDuration := vd', canvasPixels := img\<rparr>, None))"
    if h: "hasCanvas e \<and> hasCtx e \<and> spectrogram st = Some full
          \<and> frames full \<noteq> 0 \<and> bins full \<noteq> 0
          \<and> currentPixelsPerSecond e = Some p \<and> p \<noteq> 0 \<and> shouldUseHiRes e p st"
  proof -
    have s2: "shouldUseHiRes e p ?st2"
      using h by (simp add: shouldUseHiRes_cong [of ?st2 st])
    have "selectSpec e vs vd p ?st2 full = selectSpec e vs vd p st full"
      by (intro selectSpec_cong) simp_all
    then have sel2: "selectSpec e vs vd p ?st2 full = tile"
      using sel h by simp
    show ?thesis
      unfolding drawSpectrogram_def Let_def
      using h s2 by (simp add: req2 sel2)
  qed
  have draw: "\<exists>st'. drawSpectrogram e vs vd st = Inr (st', None)
                 \<and> hiResSpec st' = Some tile \<and> hiResRequestId st' = hiResRequestId st
                 \<and> hiResPending st' = hiResPending st"
    if pps: "currentPixelsPerSecond e = Some p"
  proof -
    have step: "(if shouldUseHiRes e p ?st2 then maybeRequestHiRes e vs vd p ?st2 else (?st2, None))
        = (?st2, None)"
      using req2 by simp
    consider (early) "\<not> hasCanvas e \<or> \<not> hasCtx e \<or> spectrogram st = None
          \<or> (\<exists>full. spectrogram st = Some full \<and> (frames full = 0 \<or> bins full = 0))
          \<or> p = 0"
      | (paint) full' where "hasCanvas e" "hasCtx e" "spectrogram st = Some full'"
          "\<not> (frames full' = 0 \<or> bins full' = 0)" "p \<noteq> 0"
      by (cases "spectrogram st") blast+
    then show ?thesis
    proof cases
      case early
      have "drawSpectrogram e vs vd st = Inr (st, None)
          \<or> drawSpectrogram e vs vd st = Inr (resizeSpectrumCanvas e st, None)
          \<or> drawSpectrogram e vs vd st = Inr (?st2, None)"
      proof (cases "hasCanvas e")
        case False
        then show ?thesis by (simp add: draw_early(1))
      next
        case canvas: True
        show ?thesis
        proof (cases "hasCtx e")
          case False
          then show ?thesis using canvas by (simp add: draw_early(2))
        next
          case True
          from early canvas True pps
          have "spectrogram st = None
             \<or> (\<exists>full. spectrogram st = Some full \<and> (frames full = 0 \<or> bins full = 0))
             \<or> currentPixelsPerSecond e = None \<or> currentPixelsPerSecond e = Some 0"
            by blast
          then have "drawSpectrogram e vs vd st = Inr (?st2, None)"
            using canvas True by (rule draw_early(3) [rotated 2])
          then show ?thesis by simp
        qed
      qed
      then show ?thesis using assms(1) by auto
    next
      case paint
      have dims: "0 < canvasWidth (resizeSpectrumCanvas e st)" "0 < canvasHeight (resizeSpectrumCanvas e st)"
        using resize_dims [OF paint(1), of st] by simp_all
      obtain img vs' vd' where
        img: "renderSpectrogram e (selectSpec e vs vd p ?st2 full') vs vd p
                (canvasWidth (resizeSpectrumCanvas e st)) (canvasHeight (resizeSpectrumCanvas e st))
              = Inr (img, vs', vd')"
        using renderSpectrogram_ok [OF dims] by (metis prod_cases3)
      have "drawSpectrogram e vs vd st =
          Inr (?st2\<lparr>specViewStart := vs', specViewDuration := vd', canvasPixels := img\<rparr>, None)"
        unfolding drawSpectrogram_def Let_def
        using paint pps by (simp add: step img)
      then show ?thesis using assms(1) by simp
    qed
  qed
  from req sel paint draw show ?thesis by blast
qed

lemma hiRes_end_cases:
  "(buildHiResSpectrogram_end e token r st = ((st\<lparr>hiResPending := False\<rparr>, None), False)
      \<and> (token \<noteq> hiResRequestId st \<or> (\<exists>err. r = Inl err)))
   \<or> (\<exists>spec st' req. r = Inr spec \<and> token = hiResRequestId st
        \<and> buildHiResSpectrogram_end e token r st = ((st'\<lparr>hiResPending := False\<rparr>, req), True)
        \<and> spectrogram st' = spectrogram st \<and> hiResSpec st' = Some spec
        \<and> spectrogramRequestId st' = spectrogramRequestId st
        \<and> hiResRequestId st \<le> hiResRequestId st')"
proof (cases r)
  case (Inl err)
  then show ?thesis by (simp add: buildHiResSpectrogram_end_def)
next
  case (Inr spec)
  show ?thesis
  proof (cases "token = hiResRequestId st")
    case False
    then show ?thesis using Inr by (simp add: buildHiResSpectrogram_end_def)
  next
    case True
    obtain vs vd where v: "specView e = (vs, vd)" by (cases "specView e")
    obtain st' req where d: "drawSpectrogram e vs vd (st\<lparr>hiResSpec := Some spec\<rparr>) = Inr (st', req)"
      and f: "spectrogram st' = spectrogram (st\<lparr>hiResSpec := Some spec\<rparr>)"
        "hiResSpec st' = hiResSpec (st\<lparr>hiResSpec := Some spec\<rparr>)"
        "spectrogramRequestId st' = spectrogramRequestId (st\<lparr>hiResSpec := Some spec\<rparr>)"
        "hiResRequestId (st\<lparr>hiResSpec := Some spec\<rparr>) \<le> hiResRequestId st'"
      using drawSpectrogram_total [of e vs vd "st\<lparr>hiResSpec := Some spec\<rparr>"] by blast
    have "buildHiResSpectrogram_end e token r st = ((st'\<lparr>hiResPending := False\<rparr>, req), True)"
      using Inr True by (simp add: buildHiResSpectrogram_end_def Let_def v d)
    then show ?thesis using Inr True f by auto
  qed
qed

lemma full_end_cases:
  "(buildSpectrogram_end e token spec st = ((st, None), False) \<and> token \<noteq> spectrogramRequestId st)
   \<or> (\<exists>st' req. token = spectrogramRequestId st
        \<and> buildSpectrogram_end e token spec st = ((st', req), True)
        \<and> spectrogram st' = spec \<and> hiResSpec st' = hiResSpec st
        \<and> spectrogramRequestId st' = spectrogramRequestId st
        \<and> hiResRequestId st \<le> hiResRequestId st')"
proof (cases "token = spectrogramRequestId st")
  case False
  then show ?thesis by (simp add: buildSpectrogram_end_def)
next
  case True
  obtain vs vd where v: "specView e = (vs, vd)" by (cases "specView e")
  obtain st' req where d: "drawSpectrogram e vs vd (st\<lparr>spectrogram := spec\<rparr>) = Inr (st', req)"
    and f: "spectrogram st' = spectrogram (st\<lparr>spectrogram := spec\<rparr>)"
      "hiResSpec st' = hiResSpec (st\<lparr>spectrogram := spec\<rparr>)"
      "spectrogramRequestId st' = spectrogramRequestId (st\<lparr>spectrogram := spec\<rparr>)"
      "hiResRequestId (st\<lparr>spectrogram := spec\<rparr>) \<le> hiResRequestId st'"
    using drawSpectrogram_total [of e vs vd "st\<lparr>spectrogram := spec\<rparr>"] by blast
  have "buildSpectrogram_end e token spec st = ((st', req), True)"
    using True by (simp add: buildSpectrogram_end_def Let_def v d)
  then show ?thesis using True f by auto
qed

lemma buildSpectrogram_begin_ids:
  "hiResRequestId (fst (buildSpectrogram_begin e ab st)) = hiResRequestId st
   \<and> spectrogramRequestId (fst (buildSpectrogram_begin e ab st)) = spectrogramRequestId st + 1"
  by (simp add: buildSpectrogram_begin_def Let_def)

lemma teardownSpectrum_ids:
  "hiResRequestId (teardownSpectrum e st) = hiResRequestId st
   \<and> spectrogramRequestId (teardownSpectrum e st) = spectrogramRequestId st + 1"
  by (simp add: teardownSpectrum_def)

lemma destroyAll_ids:
  "hiResRequestId (destroyAll e st) = hiResRequestId st + 1
   \<and> spectrogramRequestId (destroyAll e st) = spectrogramRequestId st + 1"
  by (simp add: destroyAll_def teardownSpectrum_def)

lemma webgpuChanged_ids:
  "hiResRequestId st \<le> hiResRequestId (fst (webgpuChanged e st))
   \<and> spectrogramRequestId st \<le> spectrogramRequestId (fst (webgpuChanged e st))"
  using buildSpectrogram_begin_ids
  by (simp add: webgpuChanged_def Let_def split: option.splits)

text \<open>Every step keeps both counters from going down, and logs only the current token.\<close>

lemma app_step_tokens:
  assumes "app_step ev st = (st', installs)"
  shows "hiResRequestId st \<le> hiResRequestId st'
       \<and> spectrogramRequestId st \<le> spectrogramRequestId st'
       \<and> (hiResTokens installs = [] \<or> hiResTokens installs = [hiResRequestId st])
       \<and> (fullTokens installs = [] \<or> fullTokens installs = [spectrogramRequestId st])"
proof -
  obtain e evt where ev: "ev = (e, evt)" by (cases ev)
  show ?thesis
  proof (cases evt)
    case (Draw vs vd)
    obtain s1 req where "drawSpectrogram e vs vd st = Inr (s1, req)"
      "spectrogramRequestId s1 = spectrogramRequestId st" "hiResRequestId st \<le> hiResRequestId s1"
      using drawSpectrogram_total [of e vs vd st] by blast
    then show ?thesis using assms ev Draw
      by (auto simp: app_step_def hiResTokens_def fullTokens_def)
  next
    case (HiResDone token r)
    from hiRes_end_cases [of e token r st] show ?thesis
      using assms ev HiResDone
      by (auto simp: app_step_def hiResTokens_def fullTokens_def)
  next
    case (Load ab)
    then show ?thesis using assms ev buildSpectrogram_begin_ids [of e ab st]
      by (auto simp: app_step_def hiResTokens_def fullTokens_def)
  next
    case (FullDone token spec)
    from full_end_cases [of e token spec st] show ?thesis
      using assms ev FullDone
      by (auto simp: app_step_def hiResTokens_def fullTokens_def)
  next
    case Teardown
    then show ?thesis using assms ev teardownSpectrum_ids [of e st]
      by (auto simp: app_step_def hiResTokens_def fullTokens_def)
  next
    case DestroyAll
    then show ?thesis using assms ev destroyAll_ids [of e st]
      by (auto simp: app_step_def hiResTokens_def fullTokens_def)
  next
    case WebGPUChanged
    then show ?thesis using assms ev webgpuChanged_ids [of st e]
      by (auto simp: app_step_def hiResTokens_def fullTokens_def)
  qed
qed

lemma tokens_append:
  "hiResTokens (xs @ ys) = hiResTokens xs @ hiResTokens ys"
  "fullTokens (xs @ ys) = fullTokens xs @ fullTokens ys"
  by (simp_all add: hiResTokens_def fullTokens_def)

lemma app_run_tokens:
  assumes "app_run evs st = (st', installs)"
  shows "hiResRequestId st \<le> hiResRequestId st'
       \<and> spectrogramRequestId st \<le> spectrogramRequestId st'
       \<and> sorted (hiResTokens installs) \<and> (\<forall>t \<in> set (hiResTokens installs). hiResRequestId st \<le> t)
       \<and> sorted (fullTokens installs) \<and> (\<forall>t \<in> set (fullTokens installs). spectrogramRequestId st \<le> t)"
  using assms
proof (induction evs arbitrary: st st' installs)
  case Nil
  then show ?case by (simp add: hiResTokens_def fullTokens_def)
next
  case (Cons ev evs)
  obtain st1 i1 where s: "app_step ev st = (st1, i1)" by (cases "app_step ev st")
  obtain st2 i2 where r: "app_run evs st1 = (st2, i2)" by (cases "app_run evs st1")
  from Cons.prems s r have eq: "st' = st2" "installs = i1 @ i2" by simp_all
  note a = app_step_tokens [OF s]
  note b = Cons.IH [OF r]
  show ?case
    unfolding eq tokens_append sorted_append
    using a b by fastforce
qed

subsection \<open>Request tokens\<close>

text \<open>
  C8. A completed hi-res or full-track run whose token differs from the current request
  counter is discarded: nothing is installed and both spectrograms stay as they were.
  A run is installed only when its token equals the counter at completion, and then the
  installed spectrogram is the result of that run. In every run of the application, from
  any state and with completions in any order, the tokens of the installed hi-res
  spectrograms never decrease, and neither do those of the installed full-track
  spectrograms.
\<close>

theorem token_monotonicity:
  "(token \<noteq> hiResRequestId st \<longrightarrow>
       \<not> snd (buildHiResSpectrogram_end e token r st)
     \<and> hiResSpec (fst (fst (buildHiResSpectrogram_end e token r st))) = hiResSpec st
     \<and> spectrogram (fst (fst (buildHiResSpectrogram_end e token r st))) = spectrogram st)
   \<and> (token \<noteq> spectrogramRequestId st \<longrightarrow>
       buildSpectrogram_end e token spec st = ((st, None), False))
   \<and> (snd (buildHiResSpectrogram_end e token r st) \<longrightarrow>
       token = hiResRequestId st
     \<and> (\<exists>s. r = Inr s \<and> hiResSpec (fst (fst (buildHiResSpectrogram_end e token r st))) = Some s))
   \<and> (snd (buildSpectrogram_end e token spec st) \<longrightarrow>
       token = spectrogramRequestId st
     \<and> spectrogram (fst (fst (buildSpectrogram_end e token spec st))) = spec)
   \<and> sorted (hiResTokens (snd (app_run evs st)))
   \<and> sorted (fullTokens (snd (app_run evs st)))"
proof -
  have hi: "(token \<noteq> hiResRequestId st \<longrightarrow>
       \<not> snd (buildHiResSpectrogram_end e token r st)
     \<and> hiResSpec (fst (fst (buildHiResSpectrogram_end e token r st))) = hiResSpec st
     \<and> spectrogram (fst (fst (buildHiResSpectrogram_end e token r st))) = spectrogram st)
   \<and> (snd (buildHiResSpectrogram_end e token r st) \<longrightarrow>
       token = hiResRequestId st
     \<and> (\<exists>s. r = Inr s \<and> hiResSpec (fst (fst (buildHiResSpectrogram_end e token r st))) = Some s))"
    using hiRes_end_cases [of e token r st] by auto
  have full: "(token \<noteq> spectrogramRequestId st \<longrightarrow>
       buildSpectrogram_end e token spec st = ((st, None), False))
   \<and> (snd (buildSpectrogram_end e token spec st) \<longrightarrow>
       token = spectrogramRequestId st
     \<and> spectrogram (fst (fst (buildSpectrogram_end e token spec st))) = spec)"
    using full_end_cases [of e token spec st] by auto
  obtain st' installs where r: "app_run evs st = (st', installs)" by (cases "app_run evs st")
  have "sorted (hiResTokens (snd (app_run evs st))) \<and> sorted (fullTokens (snd (app_run evs st)))"
    using app_run_tokens [OF r] by (simp add: r)
  with hi full show ?thesis by blast
qed

lemma test_state_simps:
  "spectrogram initial_state = None"
  "hiResRequestId tile_state = 2" "hiResSpec tile_state = Some gpu_tile"
  "spectrogram tile_state = Some silence_spec"
  "spectrogramRequestId tile_state = 0"
  by (simp_all add: tile_state_def initial_state_def)

lemma test_env_simps:
  "hasCanvas test_env" "hasCtx test_env" "getSampleRate test_env = 48000"
  "samplesPerPixel test_env = 256" "currentPixelsPerSecond test_env = Some (375 / 2)"
  by (simp_all add: test_env_def getSampleRate_def currentPixelsPerSecond_def silence_def)

lemma gpu_tile_simps:
  "viewStart gpu_tile = Some 0" "viewDuration gpu_tile = Some 2" "hopSize gpu_tile = 256"
  "viewStart silence_spec = None" "viewDuration silence_spec = None"
  "hopSize silence_spec = 960" "spec_sampleRate silence_spec = 48000"
  "frames silence_spec = 99" "bins silence_spec = 512"
  by (simp_all add: gpu_tile_def silence_spec_def)

theorem token_monotonicity_witness:
  "(1::nat) \<noteq> hiResRequestId tile_state
   \<and> \<not> snd (buildHiResSpectrogram_end test_env 1 (Inr silence_spec) tile_state)
   \<and> hiResSpec (fst (fst (buildHiResSpectrogram_end test_env 1 (Inr silence_spec) tile_state))) = Some gpu_tile
   \<and> (1::nat) \<noteq> spectrogramRequestId tile_state
   \<and> buildSpectrogram_end test_env 1 None tile_state = ((tile_state, None), False)
   \<and> snd (buildHiResSpectrogram_end test_env 2 (Inr silence_spec) tile_state)
   \<and> hiResSpec (fst (fst (buildHiResSpectrogram_end test_env 2 (Inr silence_spec) tile_state))) = Some silence_spec"
proof -
  have a: "(1::nat) \<noteq> hiResRequestId tile_state" "(1::nat) \<noteq> spectrogramRequestId tile_state"
    by (simp_all add: test_state_simps)
  have inst: "snd (buildHiResSpectrogram_end test_env 2 (Inr silence_spec) tile_state)"
    using hiRes_end_cases [of test_env 2 "Inr silence_spec" tile_state]
    by (auto simp: test_state_simps)
  from token_monotonicity [of 1 tile_state test_env "Inr silence_spec" None "[]"] a
  have stale: "\<not> snd (buildHiResSpectrogram_end test_env 1 (Inr silence_spec) tile_state)
     \<and> hiResSpec (fst (fst (buildHiResSpectrogram_end test_env 1 (Inr silence_spec) tile_state))) = Some gpu_tile
     \<and> buildSpectrogram_end test_env 1 None tile_state = ((tile_state, None), False)"
    by (simp add: test_state_simps)
  from token_monotonicity [of 2 tile_state test_env "Inr silence_spec" None "[]"] inst
  have "hiResSpec (fst (fst (buildHiResSpectrogram_end test_env 2 (Inr silence_spec) tile_state))) = Some silence_spec"
    by auto
  with a inst stale show ?thesis by blast
qed

theorem renderer_never_fails_witness:
  "hasCanvas test_env \<and> hasCtx test_env \<and> spectrogram initial_state = None
   \<and> drawSpectrogram test_env 0 2 initial_state
        = Inr (clearRect (resizeSpectrumCanvas test_env initial_state), None)
   \<and> canvasWidth (resizeSpectrumCanvas test_env initial_state) = 800
   \<and> canvasHeight (resizeSpectrumCanvas test_env initial_state) = 200
   \<and> canvasPixels (clearRect (resizeSpectrumCanvas test_env initial_state)) = replicate (800 * 200 * 4) 0"
proof -
  have dims: "canvasWidth (resizeSpectrumCanvas test_env initial_state) = 800"
    "canvasHeight (resizeSpectrumCanvas test_env initial_state) = 200"
    by (simp_all add: resizeSpectrumCanvas_def test_env_def initial_state_def)
  from renderer_never_fails [of test_env 0 2 initial_state]
  show ?thesis
    using test_env_simps(1,2) test_state_simps(1) by (simp add: dims)
qed

theorem cpu_tile_never_matches_witness:
  "computeSpectrogramCPU (silence 96000 48000) 0 2 960 1024 = Inr silence_spec
   \<and> hiResSpec (tile_state\<lparr>hiResSpec := Some silence_spec\<rparr>) = Some silence_spec
   \<and> \<not> hiResMatches (tile_state\<lparr>hiResSpec := Some silence_spec\<rparr>) 0 2 960
   \<and> selectSpec test_env 0 2 (375 / 2) (tile_state\<lparr>hiResSpec := Some silence_spec\<rparr>) silence_spec
       = silence_spec
   \<and> (\<exists>g. computeSpectrogramWebGPU (Some ramp_device) (silence 1024 1024) 0 1 512 1024 = Inr (Some g)
          \<and> viewStart g = Some 0 \<and> viewDuration g = Some 1)"
proof -
  have cpu: "computeSpectrogramCPU (silence 96000 48000) 0 2 960 1024 = Inr silence_spec"
    unfolding silence_spec_def by (rule silence_result)
  have h: "hiResSpec (tile_state\<lparr>hiResSpec := Some silence_spec\<rparr>) = Some silence_spec"
    by simp
  have seg: "segmentLen_of (silence 1024 1024) 0 1 = 1024"
    by (simp add: segmentLen_silence)
  obtain g where g: "computeSpectrogramWebGPU (Some ramp_device) (silence 1024 1024) 0 1 512 1024 = Inr (Some g)"
    using gpu_succeeds_ramp [of "silence 1024 1024" 0 1 512] seg by auto
  from cpu_tile_never_matches [where ab = "silence 96000 48000" and start = 0 and dur = 2
      and hop = 960 and fftSize = 1024 and s = silence_spec
      and st = "tile_state\<lparr>hiResSpec := Some silence_spec\<rparr>" and a = 0 and b = 2 and c = 960
      and e = test_env and p = "375 / 2" and full = silence_spec
      and device = "Some ramp_device" and ab' = "silence 1024 1024" and start' = 0 and dur' = 1
      and hop' = 512 and fftSize' = 1024 and g = g] cpu h g
  have "\<not> hiResMatches (tile_state\<lparr>hiResSpec := Some silence_spec\<rparr>) 0 2 960
   \<and> selectSpec test_env 0 2 (375 / 2) (tile_state\<lparr>hiResSpec := Some silence_spec\<rparr>) silence_spec
       = silence_spec
   \<and> viewStart g = Some 0 \<and> viewDuration g = Some 1"
    by blast
  then show ?thesis using cpu h g by blast
qed

lemma floorPow2_256: "floorPow2 256 = 256"
  by (simp add: floorPow2_def floorPow2_loop.simps)

lemma test_hopTarget: "hopTarget_of (getSampleRate test_env) (375 / 2) = 256"
  by (simp add: hopTarget_of_def test_env_simps floorPow2_256)

theorem cached_tile_reused_witness:
  "hiResSpec tile_state = Some gpu_tile
   \<and> viewStart gpu_tile = Some 0 \<and> \<bar>0 - 1 / 100\<bar> < (1 / 60 :: real)
   \<and> viewDuration gpu_tile = Some 2 \<and> \<bar>2 - 401 / 200\<bar> < (1 / 60 :: real)
   \<and> hopSize gpu_tile = hopTarget_of (getSampleRate test_env) (375 / 2)
   \<and> shouldUseHiRes test_env (375 / 2) tile_state
   \<and> maybeRequestHiRes test_env (1 / 100) (401 / 200) (375 / 2) tile_state = (tile_state, None)
   \<and> buildHiResSpectrogram_begin test_env (1 / 100) (401 / 200) (375 / 2) tile_state = (tile_state, None)
   \<and> selectSpec test_env (1 / 100) (401 / 200) (375 / 2) tile_state silence_spec = gpu_tile"
proof -
  have h1: "hiResSpec tile_state = Some gpu_tile" by (rule test_state_simps)
  have h2: "viewStart gpu_tile = Some 0" by (rule gpu_tile_simps)
  have h3: "\<bar>0 - 1 / 100\<bar> < (1 / 60 :: real)" by simp
  have h4: "viewDuration gpu_tile = Some 2" by (rule gpu_tile_simps)
  have h5: "\<bar>2 - 401 / 200\<bar> < (1 / 60 :: real)" by simp
  have h6: "hopSize gpu_tile = hopTarget_of (getSampleRate test_env) (375 / 2)"
    by (simp add: test_hopTarget gpu_tile_simps)
  have use: "shouldUseHiRes test_env (375 / 2) tile_state"
    by (simp add: shouldUseHiRes_def test_state_simps test_env_simps gpu_tile_simps baseSPP_def Let_def)
  from cached_tile_reused [OF h1 h2 h3 h4 h5 h6, of silence_spec] use
  have "maybeRequestHiRes test_env (1 / 100) (401 / 200) (375 / 2) tile_state = (tile_state, None)
   \<and> buildHiResSpectrogram_begin test_env (1 / 100) (401 / 200) (375 / 2) tile_state = (tile_state, None)
   \<and> selectSpec test_env (1 / 100) (401 / 200) (375 / 2) tile_state silence_spec = gpu_tile"
    by blast
  with h1 h2 h3 h4 h5 h6 use show ?thesis by blast
qed


end
